theory Spec2Isabelle
  imports Main "HOL-Library.Word" "HOL-Library.Sublist"
begin

unbundle bit_operations_syntax

section \<open>Text and bytes\<close>

text \<open>
  The relay reads the inference service's reply as byte chunks (\<open>Uint8Array\<close>) and
  turns them into JavaScript strings, which are sequences of UTF-16 code units.
\<close>

type_synonym byte = "8 word"
type_synonym code_unit = "16 word"
type_synonym jsstring = "code_unit list"

definition js :: "string \<Rightarrow> jsstring" where
  \<comment> \<open>an ASCII string literal of the source\<close>
  "js s = map of_char s"

definition LF :: code_unit where
  "LF = 0x0A"

definition CR :: code_unit where
  "CR = 0x0D"

definition bytes_of :: "string \<Rightarrow> byte list" where
  \<comment> \<open>the bytes of an ASCII text, for concrete inputs\<close>
  "bytes_of s = map of_char s"

subsection \<open>\<open>TextDecoder\<close>: the streaming UTF-8 decoder of the platform\<close>

text \<open>
  \<open>new TextDecoder()\<close> with \<open>decode(value, { stream: true })\<close> is the platform's
  UTF-8 decoder (error mode replacement, BOM not ignored). It is written here as the
  byte-at-a-time machine of the Encoding Standard: the state left by one chunk is the
  state the next chunk starts from, and an incomplete sequence at the end of a chunk
  stays in the state. The source never calls \<open>decode\<close> without \<open>stream\<close>, so the
  machine is never flushed.
\<close>

record utf8_decoder =
  code_point :: "32 word"
  bytes_seen :: nat
  bytes_needed :: nat
  lower_boundary :: byte
  upper_boundary :: byte
  bom_seen :: bool

definition new_TextDecoder :: utf8_decoder where
  "new_TextDecoder =
     \<lparr>code_point = 0, bytes_seen = 0, bytes_needed = 0,
      lower_boundary = 0x80, upper_boundary = 0xBF, bom_seen = False\<rparr>"

definition utf8_reset :: "utf8_decoder \<Rightarrow> utf8_decoder" where
  "utf8_reset d =
     d\<lparr>code_point := 0, bytes_seen := 0, bytes_needed := 0,
       lower_boundary := 0x80, upper_boundary := 0xBF\<rparr>"

definition utf8_first :: "utf8_decoder \<Rightarrow> byte \<Rightarrow> utf8_decoder \<times> 32 word list" where
  \<comment> \<open>a byte read while no sequence is open\<close>
  "utf8_first d b =
     (if b \<le> 0x7F then (d, [ucast b])
      else if 0xC2 \<le> b \<and> b \<le> 0xDF
        then (d\<lparr>bytes_needed := 1, code_point := ucast (b AND 0x1F)\<rparr>, [])
      else if 0xE0 \<le> b \<and> b \<le> 0xEF
        then (d\<lparr>lower_boundary := (if b = 0xE0 then 0xA0 else lower_boundary d),
                upper_boundary := (if b = 0xED then 0x9F else upper_boundary d),
                bytes_needed := 2, code_point := ucast (b AND 0x0F)\<rparr>, [])
      else if 0xF0 \<le> b \<and> b \<le> 0xF4
        then (d\<lparr>lower_boundary := (if b = 0xF0 then 0x90 else lower_boundary d),
                upper_boundary := (if b = 0xF4 then 0x8F else upper_boundary d),
                bytes_needed := 3, code_point := ucast (b AND 0x07)\<rparr>, [])
      else (d, [0xFFFD]))"

definition utf8_handler :: "utf8_decoder \<Rightarrow> byte \<Rightarrow> utf8_decoder \<times> 32 word list" where
  "utf8_handler d b =
     (if bytes_needed d = 0 then utf8_first d b
      else if b < lower_boundary d \<or> upper_boundary d < b
        then (let (d', out) = utf8_first (utf8_reset d) b in (d', 0xFFFD # out))
      else
        (let cp = push_bit 6 (code_point d) OR ucast (b AND 0x3F);
             d1 = d\<lparr>lower_boundary := 0x80, upper_boundary := 0xBF,
                    code_point := cp, bytes_seen := bytes_seen d + 1\<rparr>
         in if bytes_seen d1 \<noteq> bytes_needed d1 then (d1, [])
            else (utf8_reset d1, [cp])))"

definition utf16_units :: "32 word \<Rightarrow> jsstring" where
  \<comment> \<open>a scalar value as the code units of a JavaScript string\<close>
  "utf16_units cp =
     (if cp < 0x10000 then [ucast cp]
      else [ucast (0xD800 + drop_bit 10 (cp - 0x10000)),
            ucast (0xDC00 + ((cp - 0x10000) AND 0x3FF))])"

fun serialize :: "bool \<Rightarrow> 32 word list \<Rightarrow> bool \<times> jsstring" where
  \<comment> \<open>the output side: the first scalar value of the stream is dropped when it is U+FEFF\<close>
  "serialize seen [] = (seen, [])"
| "serialize seen (cp # cps) =
     (if \<not> seen \<and> cp = 0xFEFF then serialize True cps
      else (let (seen', out) = serialize True cps in (seen', utf16_units cp @ out)))"

fun decode :: "utf8_decoder \<Rightarrow> byte list \<Rightarrow> utf8_decoder \<times> jsstring" where
  \<comment> \<open>\<open>decoder.decode(value, { stream: true })\<close>\<close>
  "decode d [] = (d, [])"
| "decode d (b # bs) =
     (let (d1, cps) = utf8_handler d b;
          (seen, out) = serialize (bom_seen d1) cps;
          (d2, rest) = decode (d1\<lparr>bom_seen := seen\<rparr>) bs
      in (d2, out @ rest))"

section \<open>Frame Decoder\<close>

subsection \<open>String operations of the parse loop\<close>

fun indexOf :: "jsstring \<Rightarrow> jsstring \<Rightarrow> nat option" where
  \<comment> \<open>\<open>s.indexOf(pat)\<close>; \<open>None\<close> is the source's \<open>-1\<close>\<close>
  "indexOf pat [] = (if pat = [] then Some 0 else None)"
| "indexOf pat (c # s) =
     (if prefix pat (c # s) then Some 0 else map_option Suc (indexOf pat s))"

fun split_lf :: "jsstring \<Rightarrow> jsstring list" where
  \<comment> \<open>\<open>rawEvent.split("\n")\<close>\<close>
  "split_lf [] = [[]]"
| "split_lf (c # s) =
     (if c = LF then [] # split_lf s
      else (case split_lf s of [] \<Rightarrow> [[c]] | l # ls \<Rightarrow> (c # l) # ls))"

fun join_lf :: "jsstring list \<Rightarrow> jsstring" where
  \<comment> \<open>\<open>dataLines.join("\n")\<close>\<close>
  "join_lf [] = []"
| "join_lf [l] = l"
| "join_lf (l # ls) = l @ LF # join_lf ls"

definition is_white_space :: "code_unit \<Rightarrow> bool" where
  \<comment> \<open>the code units \<open>String.prototype.trimStart\<close> removes: WhiteSpace and LineTerminator\<close>
  "is_white_space c \<longleftrightarrow>
     c \<in> {0x09, 0x0A, 0x0B, 0x0C, 0x0D, 0x20, 0xA0, 0x1680, 0x2028, 0x2029,
          0x202F, 0x205F, 0x3000, 0xFEFF} \<or> (0x2000 \<le> c \<and> c \<le> 0x200A)"

definition trimStart :: "jsstring \<Rightarrow> jsstring" where
  "trimStart s = dropWhile is_white_space s"

definition startsWith :: "jsstring \<Rightarrow> jsstring \<Rightarrow> bool" where
  "startsWith s pat = prefix pat s"

definition data_marker :: jsstring where
  "data_marker = js ''data:''"

definition record_separator :: jsstring where
  "record_separator = [LF, LF]"

definition remove_cr :: "jsstring \<Rightarrow> jsstring" where
  \<comment> \<open>\<open>buffer.replace(/\r/g, "")\<close>\<close>
  "remove_cr s = filter (\<lambda>c. c \<noteq> CR) s"

definition data_lines :: "jsstring list \<Rightarrow> jsstring list" where
  \<comment> \<open>the \<open>for (const line of lines)\<close> loop that fills \<open>dataLines\<close>\<close>
  "data_lines lines =
     map (\<lambda>line. trimStart (drop (length data_marker) line))
       (filter (\<lambda>line. startsWith line data_marker) lines)"

lemma indexOf_bound: "indexOf pat s = Some i \<Longrightarrow> i + length pat \<le> length s"
proof (induction s arbitrary: i)
  case Nil
  then show ?case by (simp split: if_splits)
next
  case (Cons c s)
  show ?case
  proof (cases "prefix pat (c # s)")
    case True
    with Cons.prems show ?thesis by (auto dest: prefix_length_le)
  next
    case False
    with Cons.prems obtain j where "indexOf pat s = Some j" "i = Suc j" by auto
    with Cons.IH show ?thesis by fastforce
  qed
qed

lemma indexOf_separator_bound:
  "indexOf record_separator s = Some i \<Longrightarrow> i + 2 \<le> length s"
  using indexOf_bound [of record_separator s i] by (simp add: record_separator_def)

subsection \<open>\<open>consumeSseEvents\<close> (public/chat.js)\<close>

function consume_loop :: "jsstring \<Rightarrow> jsstring list \<Rightarrow> jsstring list \<times> jsstring" where
  "consume_loop normalized events =
     (case indexOf record_separator normalized of
        None \<Rightarrow> (events, normalized)
      | Some eventEndIndex \<Rightarrow>
          (let rawEvent = take eventEndIndex normalized;
               normalized' = drop (eventEndIndex + 2) normalized;
               dataLines = data_lines (split_lf rawEvent)
           in if dataLines = [] then consume_loop normalized' events
              else consume_loop normalized' (events @ [join_lf dataLines])))"
  by pat_completeness auto
termination
  by (relation "measure (\<lambda>(normalized, events). length normalized)")
     (auto dest: indexOf_separator_bound)

declare consume_loop.simps [simp del]

definition consumeSseEvents :: "jsstring \<Rightarrow> jsstring list \<times> jsstring" where
  \<comment> \<open>returns \<open>{ events, buffer: normalized }\<close>\<close>
  "consumeSseEvents buffer = consume_loop (remove_cr buffer) []"

subsection \<open>The read loop around the parse pass\<close>

text \<open>
  The read loops of \<open>accumulateAndPersist\<close> and \<open>handleRealtime\<close> keep one decoder
  and one residual buffer: every chunk is decoded and appended to the buffer, then a
  parse pass runs and leaves the unmatched tail in the buffer; when the stream is done,
  one record separator is appended and a last pass runs. Here the pass hands out its
  events, as \<open>consumeSseEvents\<close> does.
\<close>

record frame_decoder =
  decoder :: utf8_decoder
  buffer :: jsstring

definition new_frame_decoder :: frame_decoder where
  "new_frame_decoder = \<lparr>decoder = new_TextDecoder, buffer = []\<rparr>"

definition feed :: "frame_decoder \<Rightarrow> byte list \<Rightarrow> frame_decoder \<times> jsstring list" where
  \<comment> \<open>\<open>buffer += decoder.decode(value, { stream: true })\<close> and one pass\<close>
  "feed fd chunk =
     (let (d, text) = decode (decoder fd) chunk;
          (events, rest) = consumeSseEvents (buffer fd @ text)
      in (\<lparr>decoder = d, buffer = rest\<rparr>, events))"

definition finish :: "frame_decoder \<Rightarrow> jsstring list" where
  \<comment> \<open>\<open>buffer += "\n\n"\<close> and the last pass\<close>
  "finish fd = fst (consumeSseEvents (buffer fd @ record_separator))"

fun read_events :: "frame_decoder \<Rightarrow> byte list list \<Rightarrow> jsstring list" where
  "read_events fd [] = finish fd"
| "read_events fd (chunk # chunks) =
     (let (fd', events) = feed fd chunk in events @ read_events fd' chunks)"

definition frame_decode :: "byte list list \<Rightarrow> jsstring list" where
  \<comment> \<open>all event payloads of a stream that delivers \<open>chunks\<close> and then closes\<close>
  "frame_decode chunks = read_events new_frame_decoder chunks"


section \<open>JSON values and the platform\<close>

text \<open>
  \<open>JSON.parse\<close> is the platform's. The relay only inspects the value it returns, so the
  parser is a parameter of the model, together with the two other places where the
  platform decides: whether a number is truthy, and the string a value other than a
  string is converted to by \<open>+=\<close> (\<open>None\<close> when the conversion throws). The type \<open>'n\<close>
  stands for the numbers.
\<close>

datatype 'n json =
    JNull
  | JBool bool
  | JNum 'n
  | JStr jsstring
  | JArr "'n json list"
  | JObj "(jsstring \<times> 'n json) list"

record 'n platform =
  JSON_parse :: "jsstring \<Rightarrow> 'n json option"
  number_truthy :: "'n \<Rightarrow> bool"
  to_text :: "'n json \<Rightarrow> jsstring option"

datatype exn = SyntaxError | TypeError | ReferenceError | InferenceError | StreamError

text \<open>A value that may be \<open>undefined\<close> is an option; \<open>None\<close> is \<open>undefined\<close>.\<close>

definition get_member :: "'n json \<Rightarrow> jsstring \<Rightarrow> 'n json option" where
  \<comment> \<open>\<open>v.name\<close> for a value that is not \<open>null\<close> and the names the source reads
      (\<open>response\<close>, \<open>choices\<close>, \<open>delta\<close>, \<open>content\<close>, \<open>type\<close>, \<open>role\<close>, \<open>messages\<close>): only an
      object can have them\<close>
  "get_member v name = (case v of JObj kvs \<Rightarrow> map_of kvs name | _ \<Rightarrow> None)"

definition get_first :: "'n json \<Rightarrow> 'n json option" where
  \<comment> \<open>\<open>v[0]\<close> for a value that is not \<open>null\<close>\<close>
  "get_first v =
     (case v of
        JArr xs \<Rightarrow> (case xs of [] \<Rightarrow> None | x # _ \<Rightarrow> Some x)
      | JObj kvs \<Rightarrow> map_of kvs (js ''0'')
      | JStr s \<Rightarrow> (case s of [] \<Rightarrow> None | c # _ \<Rightarrow> Some (JStr [c]))
      | _ \<Rightarrow> None)"

definition optional :: "'n json option \<Rightarrow> ('n json \<Rightarrow> 'n json option) \<Rightarrow> 'n json option" where
  \<comment> \<open>optional chaining \<open>v?.\<close>: \<open>undefined\<close> when \<open>v\<close> is \<open>undefined\<close> or \<open>null\<close>\<close>
  "optional v f = (case v of None \<Rightarrow> None | Some JNull \<Rightarrow> None | Some x \<Rightarrow> f x)"

definition truthy :: "'n platform \<Rightarrow> 'n json \<Rightarrow> bool" where
  "truthy P v =
     (case v of
        JNull \<Rightarrow> False
      | JBool b \<Rightarrow> b
      | JNum n \<Rightarrow> number_truthy P n
      | JStr s \<Rightarrow> s \<noteq> []
      | JArr _ \<Rightarrow> True
      | JObj _ \<Rightarrow> True)"

definition string_of :: "'n platform \<Rightarrow> 'n json \<Rightarrow> jsstring option" where
  \<comment> \<open>the string that \<open>assistantText += v\<close> appends\<close>
  "string_of P v = (case v of JStr s \<Rightarrow> Some s | _ \<Rightarrow> to_text P v)"

section \<open>Delta Extractor\<close>

definition DONE :: jsstring where
  "DONE = js ''[DONE]''"

definition choices_delta_content :: "'n json \<Rightarrow> 'n json option" where
  \<comment> \<open>\<open>json.choices?.[0]?.delta?.content\<close>, for \<open>json\<close> that is not \<open>null\<close>\<close>
  "choices_delta_content json =
     optional (optional (optional (get_member json (js ''choices'')) get_first)
       (\<lambda>c. get_member c (js ''delta''))) (\<lambda>d. get_member d (js ''content''))"

definition response_fragment :: "'n json \<Rightarrow> jsstring option" where
  \<comment> \<open>\<open>typeof json.response === "string" && json.response.length > 0\<close>\<close>
  "response_fragment json =
     (case get_member json (js ''response'') of
        Some (JStr r) \<Rightarrow> if r \<noteq> [] then Some r else None
      | _ \<Rightarrow> None)"

definition consume_event :: "'n platform \<Rightarrow> jsstring \<Rightarrow> jsstring \<Rightarrow> jsstring" where
  \<comment> \<open>the body of the loop of \<open>consumeBuffer\<close> for one event \<open>data\<close>, from
      \<open>if (data === "[DONE]") continue\<close> on; the result is \<open>assistantText\<close>\<close>
  "consume_event P assistantText data =
     (if data = DONE then assistantText
      else
        (case JSON_parse P data of
           None \<Rightarrow> assistantText
         | Some json \<Rightarrow>
             if json = JNull then assistantText
             else
               (case response_fragment json of
                  Some r \<Rightarrow> assistantText @ r
                | None \<Rightarrow>
                    (case choices_delta_content json of
                       None \<Rightarrow> assistantText
                     | Some c \<Rightarrow>
                         if truthy P c
                         then (case string_of P c of
                                 None \<Rightarrow> assistantText
                               | Some s \<Rightarrow> assistantText @ s)
                         else assistantText))))"

datatype 'n frame = Delta "'n json" | Done | Transcript jsstring | ErrorFrame exn

definition delta_content :: "'n platform \<Rightarrow> 'n json \<Rightarrow> 'n json" where
  \<comment> \<open>the variable \<open>content\<close> of \<open>flushBuffer\<close> after the \<open>if\<close>/\<open>else if\<close>, for \<open>json\<close>
      that is not \<open>null\<close>\<close>
  "delta_content P json =
     (case response_fragment json of
        Some r \<Rightarrow> JStr r
      | None \<Rightarrow>
          (case choices_delta_content json of
             None \<Rightarrow> JStr []
           | Some c \<Rightarrow> if truthy P c then c else JStr []))"

definition flush_event ::
  "'n platform \<Rightarrow> jsstring \<times> 'n frame list \<Rightarrow> jsstring \<Rightarrow> jsstring \<times> 'n frame list" where
  \<comment> \<open>the body of the loop of \<open>flushBuffer\<close> (and of \<open>flushBuffer2\<close>, which is the same
      text) for one event \<open>payload\<close>; the state is \<open>assistantText\<close> and the frames sent\<close>
  "flush_event P st payload =
     (let (assistantText, sent) = st in
      if payload = DONE then st
      else
        (case JSON_parse P payload of
           None \<Rightarrow> st
         | Some json \<Rightarrow>
             if json = JNull then st
             else
               (let content = delta_content P json in
                if truthy P content
                then (case string_of P content of
                        None \<Rightarrow> st
                      | Some s \<Rightarrow> (assistantText @ s, sent @ [Delta content]))
                else st)))"

subsection \<open>The parse loop with the handling of an event inlined\<close>

text \<open>
  \<open>consumeBuffer\<close>, \<open>flushBuffer\<close> and \<open>flushBuffer2\<close> repeat the loop of
  \<open>consumeSseEvents\<close> and handle each event where \<open>consumeSseEvents\<close> pushes it. The loop
  is written once, with the handling of one event as \<open>body\<close>.
\<close>

function parse_pass :: "('s \<Rightarrow> jsstring \<Rightarrow> 's) \<Rightarrow> jsstring \<Rightarrow> 's \<Rightarrow> 's \<times> jsstring" where
  "parse_pass body normalized st =
     (case indexOf record_separator normalized of
        None \<Rightarrow> (st, normalized)
      | Some eventEndIndex \<Rightarrow>
          (let rawEvent = take eventEndIndex normalized;
               normalized' = drop (eventEndIndex + 2) normalized;
               dataLines = data_lines (split_lf rawEvent)
           in if dataLines = [] then parse_pass body normalized' st
              else parse_pass body normalized' (body st (join_lf dataLines))))"
  by pat_completeness auto
termination
  by (relation "measure (\<lambda>(body, normalized, st). length normalized)")
     (auto dest: indexOf_separator_bound)

declare parse_pass.simps [simp del]

datatype stream_end = Closed | Errored

type_synonym 's reader = "utf8_decoder \<times> jsstring \<times> 's"

definition read_chunk :: "('s \<Rightarrow> jsstring \<Rightarrow> 's) \<Rightarrow> 's reader \<Rightarrow> byte list \<Rightarrow> 's reader" where
  \<comment> \<open>one iteration of \<open>while (true)\<close> with \<open>done\<close> false\<close>
  "read_chunk body r value =
     (let (decoder, buffer, st) = r;
          (decoder', text) = decode decoder value;
          (st', normalized) = parse_pass body (remove_cr (buffer @ text)) st
      in (decoder', normalized, st'))"

definition read_done :: "('s \<Rightarrow> jsstring \<Rightarrow> 's) \<Rightarrow> 's reader \<Rightarrow> 's" where
  \<comment> \<open>the iteration with \<open>done\<close> true: \<open>buffer += "\n\n"\<close>, a last pass, \<open>break\<close>\<close>
  "read_done body r =
     (let (decoder, buffer, st) = r
      in fst (parse_pass body (remove_cr (buffer @ record_separator)) st))"

definition read_chunks :: "('s \<Rightarrow> jsstring \<Rightarrow> 's) \<Rightarrow> 's reader \<Rightarrow> byte list list \<Rightarrow> 's reader" where
  "read_chunks body r chunks = foldl (read_chunk body) r chunks"

definition new_reader :: "'s \<Rightarrow> 's reader" where
  \<comment> \<open>\<open>new TextDecoder()\<close>, \<open>buffer = ""\<close>\<close>
  "new_reader st = (new_TextDecoder, [], st)"


section \<open>Session log store: \<open>ConversationDO\<close> (src/conversation_do.ts)\<close>

text \<open>
  The durable object keeps the message array under the storage key \<open>messages\<close>; the key
  is absent until the first append and after a clear. \<open>JSON.parse(body) as ChatMessage\<close>
  is a cast: whatever value the parser returns is stored, so the store is written for
  any type \<open>'m\<close> of parsed values. A storage operation that throws is caught by the
  outer \<open>try\<close> and answered with status 500; \<open>storage_fails\<close> says whether the storage
  operations of the object throw.
\<close>

record 'm durable =
  stored :: "'m list option"
  storage_fails :: bool

record request =
  http_method :: string
  pathname :: string
  body_text :: jsstring

datatype 'm body = NoBody | TextBody string | JsonBody "'m list"

record 'm response =
  status :: nat
  response_body :: "'m body"

definition messages_or_empty :: "'m durable \<Rightarrow> 'm list" where
  \<comment> \<open>\<open>(await this.state.storage.get("messages")) || []\<close>\<close>
  "messages_or_empty d = (case stored d of None \<Rightarrow> [] | Some msgs \<Rightarrow> msgs)"

definition internal_error :: "'m response" where
  "internal_error = \<lparr>status = 500, response_body = TextBody ''Internal DO error''\<rparr>"

definition DO_fetch ::
  "(jsstring \<Rightarrow> 'm option) \<Rightarrow> 'm durable \<Rightarrow> request \<Rightarrow> 'm durable \<times> 'm response" where
  "DO_fetch parse d req =
     (if http_method req = ''GET'' \<and> pathname req = ''/messages'' then
        (if storage_fails d then (d, internal_error)
         else (d, \<lparr>status = 200, response_body = JsonBody (messages_or_empty d)\<rparr>))
      else if http_method req = ''POST'' \<and> pathname req = ''/append'' then
        (if body_text req = [] then (d, \<lparr>status = 400, response_body = TextBody ''Missing body''\<rparr>)
         else
           (case parse (body_text req) of
              None \<Rightarrow> (d, \<lparr>status = 400, response_body = TextBody ''Invalid JSON''\<rparr>)
            | Some msg \<Rightarrow>
                if storage_fails d then (d, internal_error)
                else (d\<lparr>stored := Some (messages_or_empty d @ [msg])\<rparr>,
                      \<lparr>status = 204, response_body = NoBody\<rparr>)))
      else if http_method req = ''DELETE'' \<and> pathname req = ''/clear'' then
        (if storage_fails d then (d, internal_error)
         else (d\<lparr>stored := None\<rparr>, \<lparr>status = 204, response_body = NoBody\<rparr>))
      else (d, \<lparr>status = 404, response_body = TextBody ''Not found''\<rparr>))"

definition get_all :: "(jsstring \<Rightarrow> 'm option) \<Rightarrow> 'm durable \<Rightarrow> 'm response" where
  \<comment> \<open>the get-all request \<open>GET /messages\<close>\<close>
  "get_all parse d = snd (DO_fetch parse d \<lparr>http_method = ''GET'', pathname = ''/messages'', body_text = []\<rparr>)"

subsection \<open>The store as the relay calls it\<close>

text \<open>
  The relay appends with \<open>doStub.fetch("https://do/append", { method: "POST", body:
  JSON.stringify(m) })\<close> and does not look at the answer; it reads with
  \<open>doStub.fetch("https://do/messages")\<close> and uses the body only when the answer is \<open>ok\<close>.
  The serialisation of a message is taken to be parsed back to the same value by the
  store, so the two calls are written on values.
\<close>

definition append_message :: "'m durable \<Rightarrow> 'm \<Rightarrow> 'm durable" where
  "append_message d m =
     (if storage_fails d then d else d\<lparr>stored := Some (messages_or_empty d @ [m])\<rparr>)"

definition fetch_messages :: "'m durable \<Rightarrow> 'm list" where
  \<comment> \<open>\<open>let canonicalMessages = []; if (messagesRes.ok) canonicalMessages = await messagesRes.json()\<close>\<close>
  "fetch_messages d = (if storage_fails d then [] else messages_or_empty d)"


section \<open>The relay (src/index.ts)\<close>

subsection \<open>Messages and the canonical history\<close>

definition SYSTEM_PROMPT :: jsstring where
  "SYSTEM_PROMPT =
     js ''You are a helpful, friendly assistant. Provide concise and accurate responses.''"

definition chat_message :: "string \<Rightarrow> 'n json option \<Rightarrow> 'n json" where
  \<comment> \<open>\<open>{ role, content }\<close> as the store parses it back: \<open>JSON.stringify\<close> leaves out a
      property whose value is \<open>undefined\<close>\<close>
  "chat_message role content =
     JObj ((js ''role'', JStr (js role)) #
           (case content of None \<Rightarrow> [] | Some v \<Rightarrow> [(js ''content'', v)]))"

definition system_message :: "'n json" where
  "system_message = chat_message ''system'' (Some (JStr SYSTEM_PROMPT))"

definition has_role :: "string \<Rightarrow> 'n json \<Rightarrow> bool" where
  \<comment> \<open>\<open>m.role === role\<close>, for \<open>m\<close> that is not \<open>null\<close>\<close>
  "has_role role m \<longleftrightarrow> get_member m (js ''role'') = Some (JStr (js role))"

fun some_system :: "'n json list \<Rightarrow> exn + bool" where
  \<comment> \<open>\<open>msgs.some((m) => m.role === "system")\<close>; reading \<open>role\<close> of \<open>null\<close> throws\<close>
  "some_system [] = Inr False"
| "some_system (m # ms) =
     (if m = JNull then Inl TypeError
      else if has_role ''system'' m then Inr True
      else some_system ms)"

definition ensure_system :: "'n json list \<Rightarrow> exn + 'n json list" where
  \<comment> \<open>\<open>if (!msgs.some(...)) msgs.unshift({ role: "system", content: SYSTEM_PROMPT })\<close>\<close>
  "ensure_system msgs =
     (case some_system msgs of
        Inl e \<Rightarrow> Inl e
      | Inr present \<Rightarrow> Inr (if present then msgs else system_message # msgs))"

definition canonical_messages :: "'n json durable \<Rightarrow> exn + 'n json list" where
  "canonical_messages d = ensure_system (fetch_messages d)"

subsection \<open>The inference service and the state of a session\<close>

text \<open>
  \<open>env.AI.run(MODEL_ID, { messages, max_tokens: 1024, stream: true })\<close> is a parameter:
  for a history it throws (\<open>None\<close>) or returns a stream, which delivers its chunks and
  then closes or fails.
\<close>

type_synonym byte_stream = "byte list list \<times> stream_end"

record 'n env =
  platform :: "'n platform"
  AI_run :: "'n json list \<Rightarrow> byte_stream option"

text \<open>
  What a handler reads and writes: the session's durable object, the \<open>audioBuffers\<close>
  array of the connection, the frames sent on the socket so far, and the histories
  \<open>AI.run\<close> has been called with.
\<close>

record 'n world =
  store :: "'n json durable"
  audioBuffers :: "byte list list"
  sent :: "'n frame list"
  inference_calls :: "'n json list list"

subsection \<open>\<open>handleRealtime\<close>: the handler of one socket message\<close>

datatype ws_data = Text jsstring | Binary "byte list"

definition persist_reply :: "'n json durable \<Rightarrow> jsstring \<Rightarrow> 'n json durable" where
  \<comment> \<open>\<open>if (assistantText.length > 0) await doStub.fetch("https://do/append", ...)\<close>\<close>
  "persist_reply d assistantText =
     (if assistantText \<noteq> []
      then append_message d (chat_message ''assistant'' (Some (JStr assistantText)))
      else d)"

definition run_turn :: "'n env \<Rightarrow> 'n world \<Rightarrow> exn option \<times> 'n world" where
  \<comment> \<open>from \<open>// fetch canonical messages\<close> to \<open>socket.send(JSON.stringify({ type: "done" }))\<close>;
      the \<open>user_message\<close> branch and the \<open>audio_end\<close> branch hold the same text. The
      result is the exception thrown, if any, and the state it was thrown in.\<close>
  "run_turn E w =
     (case canonical_messages (store w) of
        Inl e \<Rightarrow> (Some e, w)
      | Inr canonicalMessages \<Rightarrow>
          (let w1 = w\<lparr>inference_calls := inference_calls w @ [canonicalMessages]\<rparr> in
           case AI_run E canonicalMessages of
             None \<Rightarrow> (Some InferenceError, w1)
           | Some (chunks, ending) \<Rightarrow>
               (let r = read_chunks (flush_event (platform E)) (new_reader ([], sent w1)) chunks in
                case ending of
                  Errored \<Rightarrow> (Some StreamError, w1\<lparr>sent := snd (snd (snd r))\<rparr>)
                | Closed \<Rightarrow>
                    (let (assistantText, frames) = read_done (flush_event (platform E)) r;
                         w2 = w1\<lparr>sent := frames,
                                 store := persist_reply (store w1) assistantText\<rparr>
                     in (None, w2\<lparr>sent := sent w2 @ [Done]\<rparr>)))))"

definition report :: "exn option \<times> 'n world \<Rightarrow> 'n world" where
  \<comment> \<open>\<open>catch (e) { socket.send(JSON.stringify({ type: "error", message: String(e) })) }\<close>\<close>
  "report r = (case r of (None, w) \<Rightarrow> w | (Some e, w) \<Rightarrow> w\<lparr>sent := sent w @ [ErrorFrame e]\<rparr>)"

definition total_length :: "byte list list \<Rightarrow> nat" where
  \<comment> \<open>\<open>for (const b of audioBuffers) totalLen += b.byteLength\<close>\<close>
  "total_length bufs = foldl (\<lambda>totalLen b. totalLen + length b) 0 bufs"

definition set_at :: "byte list \<Rightarrow> byte list \<Rightarrow> nat \<Rightarrow> byte list" where
  \<comment> \<open>\<open>combined.set(new Uint8Array(b), offset)\<close>, for \<open>b\<close> that fits\<close>
  "set_at combined b offset = take offset combined @ b @ drop (offset + length b) combined"

fun fill :: "byte list \<Rightarrow> nat \<Rightarrow> byte list list \<Rightarrow> byte list" where
  "fill combined offset [] = combined"
| "fill combined offset (b # bs) = fill (set_at combined b offset) (offset + length b) bs"

definition combine :: "byte list list \<Rightarrow> byte list" where
  \<comment> \<open>\<open>combined\<close> after the two loops over \<open>audioBuffers\<close>\<close>
  "combine bufs = fill (replicate (total_length bufs) 0) 0 bufs"

function decimal :: "nat \<Rightarrow> jsstring" where
  \<comment> \<open>\<open>${totalLen}\<close>: a length in decimal digits, as the template literal prints it
      (every length below \<open>10^21\<close>)\<close>
  "decimal n = (if n < 10 then [of_nat (48 + n)] else decimal (n div 10) @ [of_nat (48 + n mod 10)])"
  by pat_completeness auto
termination
  by (relation "measure id") auto

declare decimal.simps [simp del]

definition placeholder :: "nat \<Rightarrow> jsstring" where
  "placeholder totalLen =
     js ''[Audio received '' @ decimal totalLen @ js '' bytes] (transcription not configured)''"

definition handle_message :: "'n env \<Rightarrow> 'n world \<Rightarrow> ws_data \<Rightarrow> 'n world" where
  \<comment> \<open>the \<open>message\<close> listener, run from its start to its end with nothing in between\<close>
  "handle_message E w data0 =
     (case data0 of
        Binary buf \<Rightarrow> w\<lparr>audioBuffers := audioBuffers w @ [buf]\<rparr>
      | Text s \<Rightarrow>
          (case JSON_parse (platform E) s of
             None \<Rightarrow> report (Some SyntaxError, w)
           | Some data \<Rightarrow>
               if \<not> truthy (platform E) data then w
               else if get_member data (js ''type'') = Some (JStr (js ''user_message'')) then
                 report (run_turn E
                   (w\<lparr>store := append_message (store w)
                        (chat_message ''user'' (get_member data (js ''content'')))\<rparr>))
               else if get_member data (js ''type'') = Some (JStr (js ''audio_end'')) then
                 (let totalLen = total_length (audioBuffers w);
                      combined = combine (audioBuffers w);
                      w1 = w\<lparr>store := append_message (store w)
                             (chat_message ''user'' (Some (JStr (placeholder totalLen))))\<rparr>;
                      w2 = w1\<lparr>sent := sent w1 @ [Transcript (placeholder totalLen)]\<rparr>;
                      w3 = w2\<lparr>audioBuffers := []\<rparr>
                  in report (run_turn E w3))
               else w))"

definition handle_messages :: "'n env \<Rightarrow> 'n world \<Rightarrow> ws_data list \<Rightarrow> 'n world" where
  \<comment> \<open>a sequence of messages, each handled to its end before the next arrives\<close>
  "handle_messages E w frames = foldl (handle_message E) w frames"

definition new_connection :: "'n json durable \<Rightarrow> 'n world" where
  \<comment> \<open>\<open>socket.accept()\<close>, \<open>const audioBuffers = []\<close>\<close>
  "new_connection d = \<lparr>store = d, audioBuffers = [], sent = [], inference_calls = []\<rparr>"

subsection \<open>\<open>handleChatRequest\<close>: the pull transport\<close>

definition accumulateAndPersist :: "'n platform \<Rightarrow> 'n json durable \<Rightarrow> byte_stream \<Rightarrow> 'n json durable" where
  \<comment> \<open>the closure \<open>accumulateAndPersist\<close>, called on \<open>backgroundStream\<close>; an exception of
      the read loop is caught and logged\<close>
  "accumulateAndPersist P d backgroundStream =
     (let (chunks, ending) = backgroundStream;
          r = read_chunks (consume_event P) (new_reader []) chunks
      in case ending of
           Errored \<Rightarrow> d
         | Closed \<Rightarrow> persist_reply d (read_done (consume_event P) r))"

fun filter_user :: "'n json list \<Rightarrow> exn + 'n json list" where
  \<comment> \<open>\<open>messages.filter((m) => m.role === "user")\<close>\<close>
  "filter_user [] = Inr []"
| "filter_user (m # ms) =
     (if m = JNull then Inl TypeError
      else (case filter_user ms of
              Inl e \<Rightarrow> Inl e
            | Inr us \<Rightarrow> Inr (if has_role ''user'' m then m # us else us)))"

definition request_messages :: "'n json \<Rightarrow> exn + 'n json list" where
  \<comment> \<open>\<open>const { messages = [] } = await request.json()\<close>, as the array that
      \<open>messages.some\<close> is then called on\<close>
  "request_messages parsed =
     (if parsed = JNull then Inl TypeError
      else (case get_member parsed (js ''messages'') of
              None \<Rightarrow> Inr []
            | Some (JArr ms) \<Rightarrow> Inr ms
            | Some _ \<Rightarrow> Inl TypeError))"

datatype http_response = EventStream byte_stream | Failed

record 'n chat_result =
  chat_store :: "'n json durable"
  chat_calls :: "'n json list list"
  chat_reply :: http_response

definition handleChatRequest :: "'n env \<Rightarrow> 'n json durable \<Rightarrow> jsstring \<Rightarrow> 'n chat_result" where
  \<comment> \<open>\<open>Failed\<close> is the answer of the \<open>catch\<close>: status 500, \<open>{ error: "Failed to process
      request" }\<close>. The function has the parameters \<open>request\<close> and \<open>env\<close> only, so the
      identifier \<open>ctx\<close> in \<open>ctx.waitUntil(accumulateAndPersist())\<close> is unbound: evaluating
      it throws a ReferenceError before \<open>accumulateAndPersist\<close> is called, and the
      \<open>return new Response(clientStream, ...)\<close> that follows is never reached.\<close>
  "handleChatRequest E d requestBody =
     (case JSON_parse (platform E) requestBody of
        None \<Rightarrow> \<lparr>chat_store = d, chat_calls = [], chat_reply = Failed\<rparr>
      | Some parsed \<Rightarrow>
          (case request_messages parsed of
             Inl e \<Rightarrow> \<lparr>chat_store = d, chat_calls = [], chat_reply = Failed\<rparr>
           | Inr messages0 \<Rightarrow>
               (case ensure_system messages0 of
                  Inl e \<Rightarrow> \<lparr>chat_store = d, chat_calls = [], chat_reply = Failed\<rparr>
                | Inr messages \<Rightarrow>
                    (case filter_user messages of
                       Inl e \<Rightarrow> \<lparr>chat_store = d, chat_calls = [], chat_reply = Failed\<rparr>
                     | Inr users \<Rightarrow>
                         (let d1 = (if users = [] then d else append_message d (last users)) in
                          case canonical_messages d1 of
                            Inl e \<Rightarrow> \<lparr>chat_store = d1, chat_calls = [], chat_reply = Failed\<rparr>
                          | Inr canonicalMessages \<Rightarrow>
                              (case AI_run E canonicalMessages of
                                 None \<Rightarrow> \<lparr>chat_store = d1, chat_calls = [canonicalMessages], chat_reply = Failed\<rparr>
                               | Some aiStream \<Rightarrow>
                                   \<lparr>chat_store = d1, chat_calls = [canonicalMessages], chat_reply = Failed\<rparr>))))))"


section \<open>The Delta Extractor in words\<close>

text \<open>
  The two loop bodies \<open>consume_event\<close> and \<open>flush_event\<close> are compared with the rules
  as a text states them. \<open>claimed_extract\<close> follows the words of the specification: the
  sentinel signals the end of the stream, and a \<open>choices[0].delta.content\<close> that is
  present is the fragment. \<open>claimed_fragments\<close> are the fragments of a sequence of
  events under these rules: nothing after the end of the stream.
\<close>

datatype 'n extracted = EndOfStream | Dropped | Fragment "'n json" | NoFragment

definition claimed_extract :: "'n platform \<Rightarrow> jsstring \<Rightarrow> 'n extracted" where
  "claimed_extract P payload =
     (if payload = DONE then EndOfStream
      else
        (case JSON_parse P payload of
           None \<Rightarrow> Dropped
         | Some json \<Rightarrow>
             (case response_fragment json of
                Some r \<Rightarrow> Fragment (JStr r)
              | None \<Rightarrow>
                  (case choices_delta_content json of
                     Some c \<Rightarrow> Fragment c
                   | None \<Rightarrow> NoFragment))))"

fun claimed_fragments :: "'n platform \<Rightarrow> jsstring list \<Rightarrow> 'n json list" where
  "claimed_fragments P [] = []"
| "claimed_fragments P (payload # events) =
     (case claimed_extract P payload of
        EndOfStream \<Rightarrow> []
      | Fragment c \<Rightarrow> c # claimed_fragments P events
      | _ \<Rightarrow> claimed_fragments P events)"

text \<open>
  \<open>extract_fragment\<close> states the rules the source follows, in order: the sentinel gives
  no fragment; a payload that does not parse, or parses to \<open>null\<close>, gives none; a
  \<open>response\<close> that is a string of nonzero length is the fragment; otherwise
  \<open>choices[0].delta.content\<close> is the fragment when it is truthy and can be converted to
  a string; otherwise there is none. A fragment is the value sent and the text appended.
\<close>

definition extract_fragment :: "'n platform \<Rightarrow> jsstring \<Rightarrow> ('n json \<times> jsstring) option" where
  "extract_fragment P payload =
     (if payload = DONE then None
      else
        (case JSON_parse P payload of
           None \<Rightarrow> None
         | Some json \<Rightarrow>
             if json = JNull then None
             else
               (case response_fragment json of
                  Some r \<Rightarrow> Some (JStr r, r)
                | None \<Rightarrow>
                    (case choices_delta_content json of
                       None \<Rightarrow> None
                     | Some c \<Rightarrow>
                         if truthy P c then map_option (Pair c) (string_of P c) else None))))"

definition fragments :: "'n platform \<Rightarrow> jsstring list \<Rightarrow> ('n json \<times> jsstring) list" where
  \<comment> \<open>the fragments of a sequence of events, in order; no event ends the sequence\<close>
  "fragments P events = List.map_filter (extract_fragment P) events"

section \<open>Concrete inputs\<close>

text \<open>
  A finite table of \<open>JSON.parse\<close> for the texts of the examples (every other text is
  taken not to parse), and an inference service that answers every history with the
  stream of the specification's scenario, one record per chunk. The conversion
  \<open>to_text\<close> is not consulted on these inputs.
\<close>

definition example_parse :: "jsstring \<Rightarrow> nat json option" where
  "example_parse s =
     (if s = js ''{\"type\":\"user_message\",\"content\":\"Hi\"}''
        then Some (JObj [(js ''type'', JStr (js ''user_message'')), (js ''content'', JStr (js ''Hi''))])
      else if s = js ''{\"type\":\"audio_end\"}''
        then Some (JObj [(js ''type'', JStr (js ''audio_end''))])
      else if s = js ''{\"response\":\"Hel\"}''
        then Some (JObj [(js ''response'', JStr (js ''Hel''))])
      else if s = js ''{\"response\":\"lo\"}''
        then Some (JObj [(js ''response'', JStr (js ''lo''))])
      else if s = js ''{\"choices\":[{\"delta\":{\"content\":\"\"}}]}''
        then Some (JObj [(js ''choices'', JArr [JObj [(js ''delta'', JObj [(js ''content'', JStr [])])]])])
      else if s = js ''{\"messages\":[{\"role\":\"user\",\"content\":\"Hi\"}]}''
        then Some (JObj [(js ''messages'',
               JArr [JObj [(js ''role'', JStr (js ''user'')), (js ''content'', JStr (js ''Hi''))]])])
      else if s = js ''null'' then Some JNull
      else None)"

definition example_platform :: "nat platform" where
  "example_platform =
     \<lparr>JSON_parse = example_parse, number_truthy = (\<lambda>n. n \<noteq> 0), to_text = (\<lambda>v. None)\<rparr>"

definition example_stream :: byte_stream where
  "example_stream =
     ([bytes_of ''data: {\"response\":\"Hel\"}'' @ [0x0A, 0x0A],
       bytes_of ''data: {\"response\":\"lo\"}'' @ [0x0A, 0x0A],
       bytes_of ''data: [DONE]'' @ [0x0A, 0x0A]], Closed)"

definition example_env :: "nat env" where
  "example_env = \<lparr>platform = example_platform, AI_run = (\<lambda>history. Some example_stream)\<rparr>"

definition empty_log :: "nat json durable" where
  "empty_log = \<lparr>stored = None, storage_fails = False\<rparr>"


section \<open>Handlers in flight on one connection\<close>

text \<open>
  The \<open>message\<close> listener is an \<open>async\<close> function and the socket does not wait for it:
  a frame that arrives while an earlier invocation is suspended at an \<open>await\<close> starts a
  new invocation. An invocation in flight is a task, named after the \<open>await\<close> it is
  suspended at, with the local variables it still needs. The connection keeps no
  variable besides \<open>audioBuffers\<close>. Resuming a task runs it to its next \<open>await\<close> (the
  awaited call has taken effect by then) or to its end.
\<close>

datatype 'n task =
    AwaitAppend "'n json"
    \<comment> \<open>\<open>user_message\<close>: the append of the user message\<close>
  | AwaitAudioAppend nat
    \<comment> \<open>\<open>audio_end\<close>: the append of the placeholder for \<open>totalLen\<close> bytes\<close>
  | AwaitMessages
    \<comment> \<open>the fetch of the canonical messages\<close>
  | AwaitInference "'n json list"
    \<comment> \<open>\<open>env.AI.run\<close>, called with the canonical messages\<close>
  | AwaitRead utf8_decoder jsstring jsstring "byte list list" stream_end
    \<comment> \<open>\<open>reader.read()\<close>, with \<open>decoder\<close>, \<open>buffer\<close>, \<open>assistantText\<close> and what the stream
        has yet to deliver\<close>
  | AwaitPersist jsstring
    \<comment> \<open>the append of the assistant message\<close>

definition send :: "'n frame \<Rightarrow> 'n world \<Rightarrow> 'n world" where
  "send f w = w\<lparr>sent := sent w @ [f]\<rparr>"

definition arrive :: "'n env \<Rightarrow> 'n world \<Rightarrow> ws_data \<Rightarrow> 'n world \<times> 'n task option" where
  \<comment> \<open>the listener from its start to its first \<open>await\<close>, or to its end\<close>
  "arrive E w data0 =
     (case data0 of
        Binary buf \<Rightarrow> (w\<lparr>audioBuffers := audioBuffers w @ [buf]\<rparr>, None)
      | Text s \<Rightarrow>
          (case JSON_parse (platform E) s of
             None \<Rightarrow> (send (ErrorFrame SyntaxError) w, None)
           | Some data \<Rightarrow>
               if \<not> truthy (platform E) data then (w, None)
               else if get_member data (js ''type'') = Some (JStr (js ''user_message'')) then
                 (w, Some (AwaitAppend (chat_message ''user'' (get_member data (js ''content'')))))
               else if get_member data (js ''type'') = Some (JStr (js ''audio_end'')) then
                 (w, Some (AwaitAudioAppend (total_length (audioBuffers w))))
               else (w, None)))"

definition resume :: "'n env \<Rightarrow> 'n world \<Rightarrow> 'n task \<Rightarrow> 'n world \<times> 'n task option" where
  \<comment> \<open>a suspended invocation from its \<open>await\<close> to the next one, or to its end\<close>
  "resume E w t =
     (case t of
        AwaitAppend m \<Rightarrow> (w\<lparr>store := append_message (store w) m\<rparr>, Some AwaitMessages)
      | AwaitAudioAppend totalLen \<Rightarrow>
          (let w1 = w\<lparr>store := append_message (store w)
                         (chat_message ''user'' (Some (JStr (placeholder totalLen))))\<rparr>;
               w2 = send (Transcript (placeholder totalLen)) w1
           in (w2\<lparr>audioBuffers := []\<rparr>, Some AwaitMessages))
      | AwaitMessages \<Rightarrow>
          (case canonical_messages (store w) of
             Inl e \<Rightarrow> (send (ErrorFrame e) w, None)
           | Inr canonicalMessages \<Rightarrow>
               (w\<lparr>inference_calls := inference_calls w @ [canonicalMessages]\<rparr>,
                Some (AwaitInference canonicalMessages)))
      | AwaitInference canonicalMessages \<Rightarrow>
          (case AI_run E canonicalMessages of
             None \<Rightarrow> (send (ErrorFrame InferenceError) w, None)
           | Some (chunks, ending) \<Rightarrow> (w, Some (AwaitRead new_TextDecoder [] [] chunks ending)))
      | AwaitRead dec buf assistantText chunks ending \<Rightarrow>
          (case chunks of
             value # rest \<Rightarrow>
               (let (dec', buf', assistantText', frames) =
                      read_chunk (flush_event (platform E)) (dec, buf, assistantText, sent w) value
                in (w\<lparr>sent := frames\<rparr>, Some (AwaitRead dec' buf' assistantText' rest ending)))
           | [] \<Rightarrow>
               (case ending of
                  Errored \<Rightarrow> (send (ErrorFrame StreamError) w, None)
                | Closed \<Rightarrow>
                    (let (assistantText', frames) =
                           read_done (flush_event (platform E)) (dec, buf, assistantText, sent w)
                     in if assistantText' \<noteq> []
                        then (w\<lparr>sent := frames\<rparr>, Some (AwaitPersist assistantText'))
                        else (send Done (w\<lparr>sent := frames\<rparr>), None))))
      | AwaitPersist assistantText \<Rightarrow>
          (send Done
             (w\<lparr>store := append_message (store w)
                   (chat_message ''assistant'' (Some (JStr assistantText)))\<rparr>),
           None))"

record 'n connection =
  world :: "'n world"
  tasks :: "'n task option list"

datatype event = Arrive ws_data | Resume nat

definition step :: "'n env \<Rightarrow> 'n connection \<Rightarrow> event \<Rightarrow> 'n connection" where
  \<comment> \<open>a frame arrives, or the invocation number \<open>i\<close> is resumed; an invocation that has
      ended stays in the list as \<open>None\<close>\<close>
  "step E c ev =
     (case ev of
        Arrive data0 \<Rightarrow>
          (case arrive E (world c) data0 of
             (w, None) \<Rightarrow> c\<lparr>world := w\<rparr>
           | (w, Some t) \<Rightarrow> \<lparr>world = w, tasks = tasks c @ [Some t]\<rparr>)
      | Resume i \<Rightarrow>
          (if i < length (tasks c)
           then (case tasks c ! i of
                   None \<Rightarrow> c
                 | Some t \<Rightarrow>
                     (let (w, t') = resume E (world c) t
                      in \<lparr>world = w, tasks = (tasks c)[i := t']\<rparr>))
           else c))"

definition run :: "'n env \<Rightarrow> 'n connection \<Rightarrow> event list \<Rightarrow> 'n connection" where
  "run E c events = foldl (step E) c events"

definition in_flight :: "'n connection \<Rightarrow> nat" where
  \<comment> \<open>the invocations that have started and not ended\<close>
  "in_flight c = length (filter (\<lambda>t. t \<noteq> None) (tasks c))"

definition task_rank :: "'n task \<Rightarrow> nat" where
  "task_rank t =
     (case t of
        AwaitAppend _ \<Rightarrow> 5
      | AwaitAudioAppend _ \<Rightarrow> 5
      | AwaitMessages \<Rightarrow> 4
      | AwaitInference _ \<Rightarrow> 3
      | AwaitRead _ _ _ _ _ \<Rightarrow> 2
      | AwaitPersist _ \<Rightarrow> 1)"

definition chunks_left :: "'n task \<Rightarrow> nat" where
  "chunks_left t = (case t of AwaitRead _ _ _ chunks _ \<Rightarrow> length chunks | _ \<Rightarrow> 0)"

lemma resume_decreases:
  "resume E w t = (w', Some t') \<Longrightarrow>
     task_rank t' < task_rank t \<or> task_rank t' = task_rank t \<and> chunks_left t' < chunks_left t"
  by (cases t)
     (auto simp: resume_def task_rank_def chunks_left_def Let_def split_def
        split: sum.splits option.splits list.splits stream_end.splits if_splits)

function drain :: "'n env \<Rightarrow> 'n world \<Rightarrow> 'n task \<Rightarrow> 'n world" where
  \<comment> \<open>an invocation resumed again and again until it ends, nothing else in between\<close>
  "drain E w t = (case resume E w t of (w', None) \<Rightarrow> w' | (w', Some t') \<Rightarrow> drain E w' t')"
  by pat_completeness auto
termination
  by (relation "measures [\<lambda>(E, w, t). task_rank t, \<lambda>(E, w, t). chunks_left t]")
     (auto dest: resume_decreases [OF sym])

declare drain.simps [simp del]


section \<open>Properties of the Frame Decoder\<close>

subsection \<open>Chunk boundaries\<close>

lemma decode_append:
  "decode d (a @ b) =
     (let (d1, t1) = decode d a; (d2, t2) = decode d1 b in (d2, t1 @ t2))"
  by (induction a arbitrary: d) (simp_all add: split_def Let_def)

lemma indexOf_append:
  "indexOf pat s = Some i \<Longrightarrow> indexOf pat (s @ t) = Some i"
proof (induction s arbitrary: i)
  case Nil
  then show ?case by (cases t) (simp_all split: if_splits)
next
  case (Cons c s)
  show ?case
  proof (cases "prefix pat (c # s)")
    case True
    then have "prefix pat (c # s @ t)"
      by (metis append_Cons prefix_prefix)
    with True Cons.prems show ?thesis by simp
  next
    case False
    with Cons.prems obtain j where j: "indexOf pat s = Some j" "i = Suc j" by auto
    then have len: "length pat \<le> length (c # s)"
      using indexOf_bound [of pat s j] by simp
    have "\<not> prefix pat (c # s @ t)"
    proof
      assume "prefix pat (c # s @ t)"
      then have "prefix pat ((c # s) @ t)" by simp
      with len have "prefix pat (c # s)"
        by (metis prefix_length_prefix prefix_order.order_refl prefixI)
      with False show False by simp
    qed
    with j Cons.IH show ?thesis by simp
  qed
qed


lemma consume_loop_prepend:
  "consume_loop n (ev0 @ ev) = (ev0 @ fst (consume_loop n ev), snd (consume_loop n ev))"
proof (induction n ev arbitrary: ev0 rule: consume_loop.induct)
  case (1 normalized events)
  show ?case
  proof (cases "indexOf record_separator normalized")
    case None
    then show ?thesis
      by (simp add: consume_loop.simps [of normalized])
  next
    case (Some i)
    let ?n' = "drop (i + 2) normalized"
    let ?dl = "data_lines (split_lf (take i normalized))"
    show ?thesis
    proof (cases "?dl = []")
      case True
      with Some "1.IH"(1) [of i "take i normalized" ?n' ?dl ev0] show ?thesis
        by (simp add: consume_loop.simps [of normalized])
    next
      case False
      with Some "1.IH"(2) [of i "take i normalized" ?n' ?dl ev0] show ?thesis
        by (simp add: consume_loop.simps [of normalized])
    qed
  qed
qed

lemma consume_loop_events:
  "consume_loop n ev = (ev @ fst (consume_loop n []), snd (consume_loop n []))"
  using consume_loop_prepend [of n ev "[]"] by simp


lemma consume_loop_append_gen:
  "consume_loop (s @ t) ev =
     (let (e1, r1) = consume_loop s ev; (e2, r2) = consume_loop (r1 @ t) [] in (e1 @ e2, r2))"
proof (induction s ev rule: consume_loop.induct)
  case (1 normalized events)
  show ?case
  proof (cases "indexOf record_separator normalized")
    case None
    then show ?thesis
      using consume_loop_events [of "normalized @ t" events]
      by (simp add: consume_loop.simps [of normalized] split_def Let_def)
  next
    case (Some i)
    let ?n' = "drop (i + 2) normalized"
    let ?dl = "data_lines (split_lf (take i normalized))"
    from Some have len: "i + 2 \<le> length normalized"
      by (rule indexOf_separator_bound)
    from Some have app: "indexOf record_separator (normalized @ t) = Some i"
      by (rule indexOf_append)
    have unf: "consume_loop (normalized @ t) events =
        (if ?dl = [] then consume_loop (?n' @ t) events
         else consume_loop (?n' @ t) (events @ [join_lf ?dl]))"
      using app len by (simp add: consume_loop.simps [of "normalized @ t"])
    have unf0: "consume_loop normalized events =
        (if ?dl = [] then consume_loop ?n' events
         else consume_loop ?n' (events @ [join_lf ?dl]))"
      using Some by (simp add: consume_loop.simps [of normalized])
    show ?thesis
    proof (cases "?dl = []")
      case True
      with Some "1.IH"(1) [of i "take i normalized" ?n' ?dl] unf unf0 show ?thesis
        by simp
    next
      case False
      with Some "1.IH"(2) [of i "take i normalized" ?n' ?dl] unf unf0 show ?thesis
        by simp
    qed
  qed
qed

lemma remove_cr_append: "remove_cr (s @ t) = remove_cr s @ remove_cr t"
  by (simp add: remove_cr_def)

lemma remove_cr_idem: "CR \<notin> set s \<Longrightarrow> remove_cr s = s"
  by (induction s) (auto simp: remove_cr_def)

lemma consume_loop_rest_subset: "set (snd (consume_loop n ev)) \<subseteq> set n"
proof (induction n ev rule: consume_loop.induct)
  case (1 normalized events)
  show ?case
  proof (cases "indexOf record_separator normalized")
    case None
    then show ?thesis by (simp add: consume_loop.simps [of normalized])
  next
    case (Some i)
    let ?n' = "drop (i + 2) normalized"
    let ?dl = "data_lines (split_lf (take i normalized))"
    have sub: "set ?n' \<subseteq> set normalized" by (rule set_drop_subset)
    show ?thesis
    proof (cases "?dl = []")
      case True
      with Some "1.IH"(1) [of i "take i normalized" ?n' ?dl] sub show ?thesis
        by (auto simp: consume_loop.simps [of normalized])
    next
      case False
      with Some "1.IH"(2) [of i "take i normalized" ?n' ?dl] sub show ?thesis
        by (auto simp: consume_loop.simps [of normalized])
    qed
  qed
qed

lemma consumeSseEvents_rest_no_cr: "CR \<notin> set (snd (consumeSseEvents b))"
  using consume_loop_rest_subset [of "remove_cr b" "[]"]
  by (auto simp: consumeSseEvents_def remove_cr_def)

text \<open>Two passes over a growing buffer give what one pass over the whole text gives.\<close>

lemma consumeSseEvents_append:
  "consumeSseEvents (b @ t) =
     (let (e1, r1) = consumeSseEvents b; (e2, r2) = consumeSseEvents (r1 @ t) in (e1 @ e2, r2))"
proof -
  have "remove_cr (snd (consumeSseEvents b)) = snd (consumeSseEvents b)"
    by (rule remove_cr_idem) (rule consumeSseEvents_rest_no_cr)
  then show ?thesis
    using consume_loop_append_gen [of "remove_cr b" "remove_cr t" "[]"]
    by (simp add: consumeSseEvents_def remove_cr_append split_def)
qed

lemma read_events_text:
  "read_events fd chunks =
     (let (d, text) = decode (decoder fd) (concat chunks);
          (events, rest) = consumeSseEvents (buffer fd @ text)
      in events @ fst (consumeSseEvents (rest @ record_separator)))"
proof (induction chunks arbitrary: fd)
  case Nil
  then show ?case
    using consumeSseEvents_append [of "buffer fd" record_separator]
    by (simp add: finish_def split_def Let_def)
next
  case (Cons chunk chunks)
  show ?case
    using consumeSseEvents_append [of "buffer fd @ snd (decode (decoder fd) chunk)"]
    by (simp add: Cons.IH feed_def split_def decode_append Let_def)
qed

lemma set_split_lf: "\<Union>(set ` set (split_lf s)) \<subseteq> set s"
proof (induction s)
  case Nil
  then show ?case by simp
next
  case (Cons c s)
  show ?case
  proof (cases "split_lf s")
    case Nil
    then show ?thesis by simp
  next
    case line: (Cons l ls)
    with Cons.IH have "set l \<subseteq> set s" "\<Union>(set ` set ls) \<subseteq> set s"
      by simp_all
    with line show ?thesis by auto
  qed
qed

lemma set_join_lf: "set (join_lf ls) \<subseteq> insert LF (\<Union>(set ` set ls))"
  by (induction ls rule: join_lf.induct) auto

lemma set_data_lines: "\<Union>(set ` set (data_lines ls)) \<subseteq> \<Union>(set ` set ls)"
  by (auto simp: data_lines_def trimStart_def dest: set_dropWhileD in_set_dropD)

lemma LF_neq_CR: "LF \<noteq> CR"
  by (simp add: LF_def CR_def)

lemma payload_no_cr:
  assumes "CR \<notin> set n"
  shows "CR \<notin> set (join_lf (data_lines (split_lf (take i n))))"
proof -
  have "set (join_lf (data_lines (split_lf (take i n)))) \<subseteq> insert LF (set (take i n))"
    using set_join_lf [of "data_lines (split_lf (take i n))"]
      set_data_lines [of "split_lf (take i n)"] set_split_lf [of "take i n"]
    by blast
  with assms LF_neq_CR show ?thesis
    by (auto dest: in_set_takeD)
qed

lemma consume_loop_no_cr:
  "CR \<notin> set n \<Longrightarrow> \<forall>e\<in>set ev. CR \<notin> set e \<Longrightarrow>
     \<forall>e\<in>set (fst (consume_loop n ev)). CR \<notin> set e"
proof (induction n ev rule: consume_loop.induct)
  case (1 normalized events)
  show ?case
  proof (cases "indexOf record_separator normalized")
    case None
    with "1.prems" show ?thesis by (simp add: consume_loop.simps [of normalized])
  next
    case (Some i)
    let ?n' = "drop (i + 2) normalized"
    let ?dl = "data_lines (split_lf (take i normalized))"
    have n': "CR \<notin> set ?n'" using "1.prems"(1) by (auto dest: in_set_dropD)
    show ?thesis
    proof (cases "?dl = []")
      case True
      with Some "1.IH"(1) [of i "take i normalized" ?n' ?dl] n' "1.prems"(2) show ?thesis
        by (simp add: consume_loop.simps [of normalized])
    next
      case False
      have "\<forall>e\<in>set (events @ [join_lf ?dl]). CR \<notin> set e"
        using "1.prems" payload_no_cr [of normalized i] by auto
      with False Some "1.IH"(2) [of i "take i normalized" ?n' ?dl] n' show ?thesis
        by (simp add: consume_loop.simps [of normalized])
    qed
  qed
qed

lemma consumeSseEvents_no_cr: "\<forall>e\<in>set (fst (consumeSseEvents b)). CR \<notin> set e"
  unfolding consumeSseEvents_def
  by (rule consume_loop_no_cr) (simp_all add: remove_cr_def)

lemma consumeSseEvents_remove_cr: "consumeSseEvents (remove_cr b) = consumeSseEvents b"
  by (simp add: consumeSseEvents_def remove_cr_def)

lemma split_lf_no_lf: "LF \<notin> set l \<Longrightarrow> split_lf l = [l]"
  by (induction l) auto

lemma split_lf_append_lf:
  "LF \<notin> set l \<Longrightarrow> split_lf (l @ LF # s) = l # split_lf s"
  by (induction l) auto

lemma split_lf_join_lf:
  "ls \<noteq> [] \<Longrightarrow> \<forall>l\<in>set ls. LF \<notin> set l \<Longrightarrow> split_lf (join_lf ls) = ls"
  by (induction ls rule: join_lf.induct) (simp_all add: split_lf_no_lf split_lf_append_lf)

lemma indexOf_separator_LF:
  "indexOf record_separator (LF # s) =
     (if prefix [LF] s then Some 0 else map_option Suc (indexOf record_separator s))"
  by (simp add: record_separator_def)

lemma indexOf_separator_not_LF:
  "c \<noteq> LF \<Longrightarrow> indexOf record_separator (c # s) = map_option Suc (indexOf record_separator s)"
  by (simp add: record_separator_def)

lemma indexOf_separator_line:
  "LF \<notin> set l \<Longrightarrow>
     indexOf record_separator (l @ LF # s) =
       (if prefix [LF] s then Some (length l)
        else map_option (\<lambda>i. Suc (length l + i)) (indexOf record_separator s))"
  by (induction l)
     (auto simp add: indexOf_separator_LF indexOf_separator_not_LF option.map_comp comp_def
        simp del: indexOf.simps)

lemma join_lf_Cons: "join_lf (l # ls) = (if ls = [] then l else l @ LF # join_lf ls)"
  by (cases ls) simp_all

lemma join_lf_not_lf_first:
  "ls \<noteq> [] \<Longrightarrow> \<forall>l\<in>set ls. l \<noteq> [] \<and> LF \<notin> set l \<Longrightarrow> \<not> prefix [LF] (join_lf ls @ t)"
  by (cases ls; cases "hd ls") (auto simp: join_lf_Cons)

lemma indexOf_separator_record:
  "ls \<noteq> [] \<Longrightarrow> \<forall>l\<in>set ls. l \<noteq> [] \<and> LF \<notin> set l \<Longrightarrow>
     indexOf record_separator (join_lf ls @ record_separator @ t) = Some (length (join_lf ls))"
proof (induction ls rule: join_lf.induct)
  case 1
  then show ?case by simp
next
  case (2 l)
  then show ?case
    using indexOf_separator_line [of l "LF # t"] by (simp add: record_separator_def)
next
  case (3 l l' ls)
  have "\<not> prefix [LF] (join_lf (l' # ls) @ record_separator @ t)"
    using "3.prems" by (intro join_lf_not_lf_first) simp_all
  moreover have "indexOf record_separator (join_lf (l' # ls) @ record_separator @ t)
      = Some (length (join_lf (l' # ls)))"
    using 3 by simp
  ultimately show ?case
    using "3.prems" indexOf_separator_line [of l "join_lf (l' # ls) @ record_separator @ t"]
    by simp
qed

lemma indexOf_separator_empty: "indexOf record_separator [] = None"
  by (simp add: record_separator_def)

subsection \<open>Evaluating the decoder on concrete inputs\<close>

lemmas text_eval =
  consumeSseEvents_def consume_loop.simps js_def remove_cr_def CR_def LF_def
  record_separator_def data_lines_def data_marker_def startsWith_def trimStart_def
  is_white_space_def

lemmas byte_eval =
  frame_decode_def feed_def finish_def new_frame_decoder_def new_TextDecoder_def
  utf8_handler_def utf8_first_def utf8_reset_def utf16_units_def bytes_of_def


section \<open>Properties of the Delta Extractor and of the read loops\<close>

lemma parse_pass_foldl:
  "parse_pass body n st = (foldl body st (fst (consume_loop n [])), snd (consume_loop n []))"
proof (induction body n st rule: parse_pass.induct)
  case (1 body normalized st)
  show ?case
  proof (cases "indexOf record_separator normalized")
    case None
    then show ?thesis
      by (simp add: parse_pass.simps [of body normalized] consume_loop.simps [of normalized])
  next
    case (Some i)
    let ?n' = "drop (i + 2) normalized"
    let ?dl = "data_lines (split_lf (take i normalized))"
    show ?thesis
    proof (cases "?dl = []")
      case True
      with Some "1.IH"(1) [of i "take i normalized" ?n' ?dl] show ?thesis
        by (simp add: parse_pass.simps [of body normalized] consume_loop.simps [of normalized])
    next
      case False
      with Some "1.IH"(2) [of i "take i normalized" ?n' ?dl]
        consume_loop_events [of ?n' "[join_lf ?dl]"]
      show ?thesis
        by (simp add: parse_pass.simps [of body normalized] consume_loop.simps [of normalized])
    qed
  qed
qed

lemma read_chunk_feed:
  "read_chunk body (d, buf, st) chunk =
     (let (fd, events) = feed \<lparr>decoder = d, buffer = buf\<rparr> chunk
      in (decoder fd, buffer fd, foldl body st events))"
  by (simp add: read_chunk_def feed_def consumeSseEvents_def parse_pass_foldl split_def Let_def)

lemma read_done_finish:
  "read_done body (d, buf, st) = foldl body st (finish \<lparr>decoder = d, buffer = buf\<rparr>)"
  by (simp add: read_done_def finish_def consumeSseEvents_def parse_pass_foldl)

lemma read_chunks_events:
  "read_done body (read_chunks body (d, buf, st) chunks) =
     foldl body st (read_events \<lparr>decoder = d, buffer = buf\<rparr> chunks)"
proof (induction chunks arbitrary: d buf st)
  case Nil
  then show ?case by (simp add: read_chunks_def read_done_finish)
next
  case (Cons chunk chunks)
  obtain d' buf' events
    where f: "feed \<lparr>decoder = d, buffer = buf\<rparr> chunk = (\<lparr>decoder = d', buffer = buf'\<rparr>, events)"
    by (cases "feed \<lparr>decoder = d, buffer = buf\<rparr> chunk"; cases "fst (feed \<lparr>decoder = d, buffer = buf\<rparr> chunk)")
       auto
  then have "read_chunk body (d, buf, st) chunk = (d', buf', foldl body st events)"
    by (simp add: read_chunk_feed)
  with Cons.IH [of d' buf' "foldl body st events"] f show ?case
    by (simp add: read_chunks_def)
qed

text \<open>Reading a whole stream handles the events of the Frame Decoder one by one, in order\<close>

lemma read_stream_events:
  "read_done body (read_chunks body (new_reader st) chunks) = foldl body st (frame_decode chunks)"
  by (simp add: new_reader_def frame_decode_def new_frame_decoder_def read_chunks_events)

lemma flush_event_extract:
  "flush_event P (t, fs) p =
     (case extract_fragment P p of None \<Rightarrow> (t, fs) | Some (c, s) \<Rightarrow> (t @ s, fs @ [Delta c]))"
  by (auto simp: flush_event_def extract_fragment_def delta_content_def truthy_def string_of_def
      response_fragment_def split: option.splits json.splits if_splits)

lemma consume_event_extract:
  "consume_event P t p =
     (case extract_fragment P p of None \<Rightarrow> t | Some (c, s) \<Rightarrow> t @ s)"
  by (auto simp: consume_event_def extract_fragment_def truthy_def string_of_def
      response_fragment_def split: option.splits json.splits if_splits)

lemma foldl_flush_event:
  "foldl (flush_event P) (t, fs) events =
     (t @ concat (map snd (fragments P events)), fs @ map (Delta \<circ> fst) (fragments P events))"
  by (induction events arbitrary: t fs)
     (auto simp: fragments_def flush_event_extract List.map_filter_simps split: option.splits)

lemma foldl_consume_event:
  "foldl (consume_event P) t events = t @ concat (map snd (fragments P events))"
  by (induction events arbitrary: t)
     (auto simp: fragments_def consume_event_extract List.map_filter_simps split: option.splits)

lemmas extract_eval =
  flush_event_def delta_content_def truthy_def string_of_def response_fragment_def
  choices_delta_content_def optional_def get_member_def get_first_def DONE_def
  example_platform_def example_parse_def claimed_extract_def extract_fragment_def js_def

section \<open>Properties of the relay\<close>

subsection \<open>The canonical history\<close>

lemma some_system_iff:
  "some_system msgs = Inr present \<Longrightarrow> present \<longleftrightarrow> (\<exists>m\<in>set msgs. has_role ''system'' m)"
  by (induction msgs) (auto split: if_splits)

lemma ensure_system_eq:
  "ensure_system msgs = Inr c \<Longrightarrow>
     c = (if \<exists>m\<in>set msgs. has_role ''system'' m then msgs else system_message # msgs)"
proof -
  assume a: "ensure_system msgs = Inr c"
  then obtain present where p: "some_system msgs = Inr present"
    by (cases "some_system msgs") (simp_all add: ensure_system_def)
  from some_system_iff [OF p] a p show ?thesis
    by (simp add: ensure_system_def)
qed

lemma system_message_role: "has_role ''system'' system_message"
  by (simp add: has_role_def system_message_def chat_message_def get_member_def)

lemma assistant_not_system: "\<not> has_role ''system'' (chat_message ''assistant'' content)"
  by (simp add: has_role_def chat_message_def get_member_def js_def)

lemma user_not_system: "\<not> has_role ''system'' (chat_message ''user'' content)"
  by (simp add: has_role_def chat_message_def get_member_def js_def)

lemma messages_append_message:
  "messages_or_empty (append_message d m) =
     (if storage_fails d then messages_or_empty d else messages_or_empty d @ [m])"
  by (simp add: append_message_def messages_or_empty_def)

lemma storage_fails_append_message [simp]:
  "storage_fails (append_message d m) = storage_fails d"
  by (simp add: append_message_def)

lemma system_messages_persist_reply:
  "filter (has_role ''system'') (messages_or_empty (persist_reply d t)) =
     filter (has_role ''system'') (messages_or_empty d)"
  by (simp add: persist_reply_def messages_append_message assistant_not_system)

subsection \<open>A turn on the duplex transport\<close>

lemma run_turn_closed:
  assumes "canonical_messages (store w) = Inr c" and "AI_run E c = Some (chunks, Closed)"
  shows "run_turn E w = (None,
         w\<lparr>inference_calls := inference_calls w @ [c],
           sent := sent w @ map (Delta \<circ> fst) (fragments (platform E) (frame_decode chunks)) @ [Done],
           store := persist_reply (store w)
             (concat (map snd (fragments (platform E) (frame_decode chunks))))\<rparr>)"
  using assms
  by (simp add: run_turn_def Let_def read_stream_events foldl_flush_event split_def)


lemma read_chunks_state:
  "\<exists>d' buf' events. read_chunks body (d, buf, st) chunks = (d', buf', foldl body st events)"
proof (induction chunks arbitrary: d buf st)
  case Nil
  show ?case
    by (rule exI [of _ d], rule exI [of _ buf], rule exI [of _ "[]"]) (simp add: read_chunks_def)
next
  case (Cons chunk chunks)
  obtain fd events where f: "feed \<lparr>decoder = d, buffer = buf\<rparr> chunk = (fd, events)"
    by (cases "feed \<lparr>decoder = d, buffer = buf\<rparr> chunk")
  then have step: "read_chunk body (d, buf, st) chunk = (decoder fd, buffer fd, foldl body st events)"
    by (simp add: read_chunk_feed)
  from Cons.IH [of "decoder fd" "buffer fd" "foldl body st events"]
  obtain d' buf' events' where
    "read_chunks body (decoder fd, buffer fd, foldl body st events) chunks
       = (d', buf', foldl body (foldl body st events) events')"
    by blast
  with step have "read_chunks body (d, buf, st) (chunk # chunks) = (d', buf', foldl body st (events @ events'))"
    by (simp add: read_chunks_def)
  then show ?case by blast
qed

lemma run_turn_errored:
  assumes "canonical_messages (store w) = Inr c" and "AI_run E c = Some (chunks, Errored)"
  shows "\<exists>events. run_turn E w = (Some StreamError,
         w\<lparr>inference_calls := inference_calls w @ [c],
           sent := sent w @ map (Delta \<circ> fst) (fragments (platform E) events)\<rparr>)"
proof -
  obtain d' buf' events where
    "read_chunks (flush_event (platform E)) (new_reader ([], sent w)) chunks
       = (d', buf', foldl (flush_event (platform E)) ([], sent w) events)"
    unfolding new_reader_def
    using read_chunks_state [of "flush_event (platform E)" new_TextDecoder "[]" "([], sent w)" chunks]
    by auto
  with assms have "run_turn E w = (Some StreamError,
         w\<lparr>inference_calls := inference_calls w @ [c],
           sent := sent w @ map (Delta \<circ> fst) (fragments (platform E) events)\<rparr>)"
    by (simp add: run_turn_def Let_def foldl_flush_event)
  then show ?thesis by blast
qed

lemma run_turn_shape:
  "\<exists>calls frames t. snd (run_turn E w) =
      w\<lparr>inference_calls := inference_calls w @ calls, sent := sent w @ frames,
        store := persist_reply (store w) t\<rparr>"
proof (cases "canonical_messages (store w)")
  case (Inl e)
  then have "snd (run_turn E w) =
      w\<lparr>inference_calls := inference_calls w @ [], sent := sent w @ [],
        store := persist_reply (store w) []\<rparr>"
    by (simp add: run_turn_def persist_reply_def)
  then show ?thesis by blast
next
  case (Inr c)
  show ?thesis
  proof (cases "AI_run E c")
    case None
    with Inr have "snd (run_turn E w) =
      w\<lparr>inference_calls := inference_calls w @ [c], sent := sent w @ [],
        store := persist_reply (store w) []\<rparr>"
      by (simp add: run_turn_def persist_reply_def)
    then show ?thesis by blast
  next
    case (Some s)
    obtain chunks ending where s: "s = (chunks, ending)" by (cases s)
    show ?thesis
    proof (cases ending)
      case Closed
      with Inr Some s run_turn_closed [of w c E chunks] show ?thesis
        by (metis snd_conv)
    next
      case Errored
      with Inr Some s run_turn_errored [of w c E chunks] obtain events where
        "snd (run_turn E w) = w\<lparr>inference_calls := inference_calls w @ [c],
           sent := sent w @ map (Delta \<circ> fst) (fragments (platform E) events),
           store := persist_reply (store w) []\<rparr>"
        by (auto simp: persist_reply_def)
      then show ?thesis by blast
    qed
  qed
qed

lemma run_turn_calls:
  "canonical_messages (store w) = Inr c \<Longrightarrow>
     inference_calls (snd (run_turn E w)) = inference_calls w @ [c]"
  by (cases "AI_run E c") (auto simp: run_turn_def Let_def split_def split: stream_end.splits)

lemma canonical_messages_eq:
  "canonical_messages d = Inr c \<Longrightarrow>
     c = (if \<exists>m\<in>set (fetch_messages d). has_role ''system'' m
          then fetch_messages d else system_message # fetch_messages d)"
  unfolding canonical_messages_def by (rule ensure_system_eq)

lemma run_turn_system_messages:
  "filter (has_role ''system'') (messages_or_empty (store (snd (run_turn E w)))) =
     filter (has_role ''system'') (messages_or_empty (store w))"
proof -
  obtain calls frames t where "snd (run_turn E w) =
      w\<lparr>inference_calls := inference_calls w @ calls, sent := sent w @ frames,
        store := persist_reply (store w) t\<rparr>"
    using run_turn_shape by blast
  then show ?thesis by (simp add: system_messages_persist_reply)
qed

lemma handleChatRequest_calls:
  "c \<in> set (chat_calls (handleChatRequest E d requestBody)) \<Longrightarrow>
     canonical_messages (chat_store (handleChatRequest E d requestBody)) = Inr c"
  by (auto simp: handleChatRequest_def Let_def split: option.splits sum.splits if_splits)

lemmas relay_eval =
  handle_message_def run_turn_def canonical_messages_def ensure_system_def fetch_messages_def
  append_message_def messages_or_empty_def persist_reply_def report_def new_connection_def
  chat_message_def system_message_def has_role_def example_env_def example_stream_def
  empty_log_def read_chunks_def read_chunk_def read_done_def new_reader_def parse_pass.simps

subsection \<open>Audio\<close>

lemma total_length_sum: "foldl (\<lambda>totalLen b. totalLen + length b) n bufs = n + length (concat bufs)"
  by (induction bufs arbitrary: n) simp_all

lemma total_length_concat: "total_length bufs = length (concat bufs)"
  by (simp add: total_length_def total_length_sum)

lemma fill_concat:
  "fill (pre @ replicate (length (concat bufs)) 0) (length pre) bufs = pre @ concat bufs"
proof (induction bufs arbitrary: pre)
  case Nil
  then show ?case by simp
next
  case (Cons b bufs)
  have "set_at (pre @ replicate (length (concat (b # bufs))) 0) b (length pre)
      = (pre @ b) @ replicate (length (concat bufs)) 0"
    by (simp add: set_at_def replicate_add [symmetric] del: replicate_add)
  with Cons.IH [of "pre @ b"] show ?case by simp
qed

lemma combine_concat: "combine bufs = concat bufs"
  using fill_concat [of "[]" bufs] by (simp add: combine_def total_length_concat)

lemma decimal_10: "decimal 10 = js ''10''"
  by (simp add: decimal.simps js_def)

lemma placeholder_10:
  "placeholder 10 = js ''[Audio received 10 bytes] (transcription not configured)''"
  by (simp add: placeholder_def decimal_10 js_def)

lemma run_turn_audioBuffers: "audioBuffers (snd (run_turn E w)) = audioBuffers w"
proof -
  obtain calls frames t where "snd (run_turn E w) =
      w\<lparr>inference_calls := inference_calls w @ calls, sent := sent w @ frames,
        store := persist_reply (store w) t\<rparr>"
    using run_turn_shape by blast
  then show ?thesis by simp
qed

lemma report_run_turn_shape:
  "\<exists>calls frames t. report (run_turn E w) =
      w\<lparr>inference_calls := inference_calls w @ calls, sent := sent w @ frames,
        store := persist_reply (store w) t\<rparr>"
proof -
  obtain calls frames t where sh: "snd (run_turn E w) =
      w\<lparr>inference_calls := inference_calls w @ calls, sent := sent w @ frames,
        store := persist_reply (store w) t\<rparr>"
    using run_turn_shape by blast
  show ?thesis
  proof (cases "fst (run_turn E w)")
    case None
    then have "report (run_turn E w) = snd (run_turn E w)"
      by (cases "run_turn E w") (simp add: report_def)
    with sh show ?thesis by metis
  next
    case (Some e)
    then have "report (run_turn E w) = (snd (run_turn E w))\<lparr>sent := sent (snd (run_turn E w)) @ [ErrorFrame e]\<rparr>"
      by (cases "run_turn E w") (simp add: report_def)
    with sh have "report (run_turn E w) =
      w\<lparr>inference_calls := inference_calls w @ calls, sent := sent w @ (frames @ [ErrorFrame e]),
        store := persist_reply (store w) t\<rparr>"
      by simp
    then show ?thesis by blast
  qed
qed

subsection \<open>Tee fidelity\<close>

lemma extract_fragment_text: "extract_fragment P p = Some (c, s) \<Longrightarrow> string_of P c = Some s"
  by (auto simp: extract_fragment_def string_of_def split: if_splits option.splits)

lemma fragments_text: "(c, s) \<in> set (fragments P events) \<Longrightarrow> string_of P c = Some s"
  by (auto simp: fragments_def List.map_filter_def dest: extract_fragment_text)

lemma accumulateAndPersist_closed:
  "accumulateAndPersist P d (chunks, Closed) =
     persist_reply d (concat (map snd (fragments P (frame_decode chunks))))"
  by (simp add: accumulateAndPersist_def read_stream_events foldl_consume_event)

lemma accumulateAndPersist_errored: "accumulateAndPersist P d (chunks, Errored) = d"
  by (simp add: accumulateAndPersist_def)

lemma persist_reply_messages:
  "\<not> storage_fails d \<Longrightarrow>
     messages_or_empty (persist_reply d t) =
       messages_or_empty d @ (if t = [] then [] else [chat_message ''assistant'' (Some (JStr t))])"
  by (simp add: persist_reply_def messages_append_message)

text \<open>The duplex transport: a turn whose stream closes\<close>

lemma duplex_turn_tee:
  assumes "canonical_messages (store w) = Inr c" and "AI_run E c = Some (chunks, Closed)"
    and "\<not> storage_fails (store w)"
  shows "\<exists>fs. run_turn E w = (None, snd (run_turn E w)) \<and>
           sent (snd (run_turn E w)) = sent w @ map (Delta \<circ> fst) fs @ [Done] \<and>
           (\<forall>(c, s)\<in>set fs. string_of (platform E) c = Some s) \<and>
           messages_or_empty (store (snd (run_turn E w))) =
             messages_or_empty (store w) @
               (if concat (map snd fs) = [] then []
                else [chat_message ''assistant'' (Some (JStr (concat (map snd fs))))])"
proof -
  let ?fs = "fragments (platform E) (frame_decode chunks)"
  have "run_turn E w = (None, snd (run_turn E w))"
    and "sent (snd (run_turn E w)) = sent w @ map (Delta \<circ> fst) ?fs @ [Done]"
    and "messages_or_empty (store (snd (run_turn E w))) =
             messages_or_empty (store w) @
               (if concat (map snd ?fs) = [] then []
                else [chat_message ''assistant'' (Some (JStr (concat (map snd ?fs))))])"
    using run_turn_closed [OF assms(1,2)] assms(3) by (simp_all add: persist_reply_messages)
  moreover have "\<forall>(c, s)\<in>set ?fs. string_of (platform E) c = Some s"
    using fragments_text by fastforce
  ultimately show ?thesis by blast
qed

text \<open>The pull transport\<close>

lemma handleChatRequest_failed: "chat_reply (handleChatRequest E d requestBody) = Failed"
  by (simp add: handleChatRequest_def Let_def split: option.splits sum.splits)

lemma filter_user_roles: "filter_user msgs = Inr us \<Longrightarrow> \<forall>m\<in>set us. has_role ''user'' m"
  by (induction msgs arbitrary: us) (auto split: if_splits sum.splits)

lemma handleChatRequest_store:
  "chat_store (handleChatRequest E d requestBody) = d \<or>
   (\<exists>m. has_role ''user'' m \<and> chat_store (handleChatRequest E d requestBody) = append_message d m)"
proof -
  have "has_role ''user'' (last us)" if "filter_user msgs = Inr us" "us \<noteq> []" for msgs and us :: "'a json list"
    using filter_user_roles [OF that(1)] that(2) by simp
  then show ?thesis
    by (auto simp: handleChatRequest_def Let_def split: option.splits sum.splits)
qed

lemmas chat_eval =
  handleChatRequest_def request_messages_def accumulateAndPersist_def

lemma user_role_not_system: "has_role ''user'' m \<Longrightarrow> \<not> has_role ''system'' m"
  by (simp add: has_role_def js_def)

lemma handleChatRequest_system_messages:
  "filter (has_role ''system'') (messages_or_empty (chat_store (handleChatRequest E d requestBody))) =
     filter (has_role ''system'') (messages_or_empty d)"
  using handleChatRequest_store [of E d requestBody]
  by (auto simp: messages_append_message user_role_not_system)

lemma handleChatRequest_call:
  "chat_calls (handleChatRequest E d requestBody) = [] \<or>
   (\<exists>c. chat_calls (handleChatRequest E d requestBody) = [c] \<and>
        canonical_messages (chat_store (handleChatRequest E d requestBody)) = Inr c)"
  by (auto simp: handleChatRequest_def Let_def split: option.splits sum.splits if_splits)

section \<open>Properties of the handlers in flight\<close>

lemma drain_persist:
  "drain E w (AwaitPersist t) =
     send Done (w\<lparr>store := append_message (store w) (chat_message ''assistant'' (Some (JStr t)))\<rparr>)"
  by (subst drain.simps) (simp add: resume_def)

lemma drain_read:
  "drain E w (AwaitRead d buf t chunks ending) =
     (let r = read_chunks (flush_event (platform E)) (d, buf, t, sent w) chunks in
      case ending of
        Errored \<Rightarrow> send (ErrorFrame StreamError) (w\<lparr>sent := snd (snd (snd r))\<rparr>)
      | Closed \<Rightarrow>
          (let (t', frames) = read_done (flush_event (platform E)) r
           in send Done (w\<lparr>sent := frames, store := persist_reply (store w) t'\<rparr>)))"
proof (induction chunks arbitrary: w d buf t)
  case Nil
  show ?case
  proof (cases ending)
    case Closed
    then show ?thesis
      by (subst drain.simps)
         (simp add: resume_def read_chunks_def split_def Let_def drain_persist persist_reply_def
            send_def)
  next
    case Errored
    then show ?thesis
      by (subst drain.simps) (simp add: resume_def read_chunks_def send_def)
  qed
next
  case (Cons chunk chunks)
  obtain d' buf' t' frames where
    rc: "read_chunk (flush_event (platform E)) (d, buf, t, sent w) chunk = (d', buf', t', frames)"
    by (cases "read_chunk (flush_event (platform E)) (d, buf, t, sent w) chunk") auto
  have "drain E w (AwaitRead d buf t (chunk # chunks) ending) =
      drain E (w\<lparr>sent := frames\<rparr>) (AwaitRead d' buf' t' chunks ending)"
    by (subst drain.simps) (simp add: resume_def rc)
  also have "\<dots> =
     (let r = read_chunks (flush_event (platform E)) (d', buf', t', frames) chunks in
      case ending of
        Errored \<Rightarrow> send (ErrorFrame StreamError) (w\<lparr>sent := snd (snd (snd r))\<rparr>)
      | Closed \<Rightarrow>
          (let (t', frames) = read_done (flush_event (platform E)) r
           in send Done (w\<lparr>sent := frames, store := persist_reply (store w) t'\<rparr>)))"
    using Cons.IH [of "w\<lparr>sent := frames\<rparr>" d' buf' t']
    by (simp add: Let_def split_def split: stream_end.splits)
  finally show ?case
    by (simp add: read_chunks_def rc)
qed

lemma drain_messages: "drain E w AwaitMessages = report (run_turn E w)"
proof (cases "canonical_messages (store w)")
  case (Inl e)
  then show ?thesis
    by (subst drain.simps) (simp add: resume_def run_turn_def report_def send_def)
next
  case (Inr c)
  let ?w1 = "w\<lparr>inference_calls := inference_calls w @ [c]\<rparr>"
  have 1: "drain E w AwaitMessages = drain E ?w1 (AwaitInference c)"
    using Inr by (subst drain.simps) (simp add: resume_def)
  show ?thesis
  proof (cases "AI_run E c")
    case None
    with Inr 1 show ?thesis
      by (subst (asm) (2) drain.simps) (simp add: resume_def run_turn_def report_def send_def)
  next
    case (Some s)
    obtain chunks ending where s: "s = (chunks, ending)" by (cases s)
    have "drain E ?w1 (AwaitInference c) = drain E ?w1 (AwaitRead new_TextDecoder [] [] chunks ending)"
      using Some s by (subst drain.simps) (simp add: resume_def)
    with 1 Inr Some s show ?thesis
      by (simp add: drain_read run_turn_def report_def send_def new_reader_def Let_def split_def
          split: stream_end.splits)
  qed
qed

text \<open>With nothing in between, the invocation of the listener is \<open>handle_message\<close>\<close>

lemma handle_message_drain:
  "handle_message E w data0 =
     (case arrive E w data0 of (w', None) \<Rightarrow> w' | (w', Some t) \<Rightarrow> drain E w' t)"
proof -
  have a: "drain E w' (AwaitAppend m) = report (run_turn E (w'\<lparr>store := append_message (store w') m\<rparr>))"
    for w' :: "'a world" and m
    by (subst drain.simps) (simp add: resume_def drain_messages)
  have b: "drain E w' (AwaitAudioAppend n) =
      report (run_turn E (w'\<lparr>store := append_message (store w')
                (chat_message ''user'' (Some (JStr (placeholder n)))),
              sent := sent w' @ [Transcript (placeholder n)], audioBuffers := []\<rparr>))"
    for w' :: "'a world" and n
    by (subst drain.simps) (simp add: resume_def drain_messages send_def Let_def)
  show ?thesis
    by (simp add: handle_message_def arrive_def a b report_def send_def Let_def
        split: ws_data.splits option.splits)
qed

lemma user_message_arrives:
  assumes "JSON_parse (platform E) s = Some data"
    and "get_member data (js ''type'') = Some (JStr (js ''user_message''))"
  shows "arrive E w (Text s) =
     (w, Some (AwaitAppend (chat_message ''user'' (get_member data (js ''content'')))))"
proof -
  from assms(2) obtain kvs where "data = JObj kvs"
    by (cases data) (simp_all add: get_member_def)
  then have "truthy (platform E) data" by (simp add: truthy_def)
  with assms show ?thesis by (simp add: arrive_def)
qed

lemmas step_eval =
  run_def step_def arrive_def resume_def send_def in_flight_def

section \<open>Claims about the Frame Decoder\<close>

text \<open>
  C2. For every input byte sequence and every way of splitting it into chunks (also
  inside a multi-byte UTF-8 character, inside the \<open>data:\<close> marker or inside the record
  separator), the read loop with its final flush produces the same ordered sequence of
  event payloads as it does when the whole input arrives as a single chunk.
\<close>

theorem frame_decode_chunk_invariant: "frame_decode chunks = frame_decode [concat chunks]"
  by (simp add: frame_decode_def read_events_text)

lemma frame_decode_split_character:
  "frame_decode [[0x64, 0x61, 0x74, 0x61, 0x3A, 0xE2], [0x82, 0xAC, 0xF0, 0x9F], [0x98, 0x80, 0x0A], [0x0A]]
     = [[0x20AC, 0xD83D, 0xDE00]]"
  by (simp add: byte_eval text_eval)

text \<open>
  C10. No event payload produced by the Frame Decoder contains a carriage return: every
  pass deletes all carriage returns of the buffered text before it looks for record
  separators, so a carriage return inside payload content is deleted too.
\<close>

theorem frame_decode_no_carriage_return:
  "(\<forall>p\<in>set (frame_decode chunks). CR \<notin> set p) \<and>
   consumeSseEvents b = consumeSseEvents (remove_cr b)"
proof -
  have "\<forall>p\<in>set (frame_decode chunks). CR \<notin> set p"
    using consumeSseEvents_no_cr
    by (auto simp: frame_decode_def read_events_text split_def Let_def)
  then show ?thesis
    by (simp add: consumeSseEvents_remove_cr)
qed

theorem frame_decode_no_carriage_return_witness:
  "frame_decode [bytes_of ''data: a'' @ [0x0D] @ bytes_of ''b'' @ [0x0A, 0x0A]] = [js ''ab''] \<and>
   CR \<notin> set (js ''ab'')"
proof -
  have "frame_decode [bytes_of ''data: a'' @ [0x0D] @ bytes_of ''b'' @ [0x0A, 0x0A]] = [js ''ab'']"
    by (simp add: byte_eval text_eval)
  then show ?thesis
    using frame_decode_no_carriage_return
      [of "[bytes_of ''data: a'' @ [0x0D] @ bytes_of ''b'' @ [0x0A, 0x0A]]" "[]"]
    by simp
qed

text \<open>
  C7, as stated: a line that begins with the \<open>data:\<close> marker contributes the line with
  the marker and at most one following space removed, so that \<open>data:   x\<close> yields
  \<open>  x\<close>. The source calls \<open>trimStart()\<close> on the rest of the line, which removes all
  leading white space: \<open>data:   x\<close> yields \<open>x\<close>.
\<close>

theorem data_line_one_space_counterexample:
  "fst (consumeSseEvents (js ''data:   x'' @ [LF, LF])) = [js ''x''] \<and> js ''x'' \<noteq> js ''  x''"
  by (simp add: text_eval)

text \<open>
  C7, amended: in a record made of the lines \<open>ls\<close>, every line that begins with the
  \<open>data:\<close> marker contributes the line with the marker and all leading white space after
  it removed (spaces, tabs and the other white space of \<open>trimStart\<close>); lines that do not
  begin with the marker are dropped; the contributions are joined with newlines into the
  one event of the record, and a record without a data line produces no event.
\<close>

theorem data_line_payload:
  assumes "ls \<noteq> []" and "\<forall>l\<in>set ls. l \<noteq> [] \<and> LF \<notin> set l \<and> CR \<notin> set l"
  shows "consumeSseEvents (join_lf ls @ record_separator) =
     (let dataLines = map (\<lambda>l. dropWhile is_white_space (drop 5 l))
                        (filter (prefix (js ''data:'')) ls)
      in if dataLines = [] then [] else [join_lf dataLines], [])"
proof -
  let ?r = "join_lf ls"
  have "set ?r \<subseteq> insert LF (\<Union>(set ` set ls))" by (rule set_join_lf)
  with assms(2) have "CR \<notin> set (?r @ record_separator)"
    using LF_neq_CR by (auto simp: record_separator_def)
  then have nocr: "remove_cr (?r @ record_separator) = ?r @ record_separator"
    by (rule remove_cr_idem)
  have idx: "indexOf record_separator (?r @ record_separator) = Some (length ?r)"
    using indexOf_separator_record [of ls "[]"] assms by simp
  have lines: "split_lf ?r = ls"
    using assms by (intro split_lf_join_lf) simp_all
  have dl: "data_lines ls = map (\<lambda>l. dropWhile is_white_space (drop 5 l))
                        (filter (prefix (js ''data:'')) ls)"
  proof -
    have "length data_marker = 5" by (simp add: data_marker_def js_def)
    then show ?thesis
      by (simp add: data_lines_def startsWith_def trimStart_def) (simp add: data_marker_def)
  qed
  have tk: "take (length ?r) (?r @ record_separator) = ?r" by simp
  have dr: "drop 2 record_separator = []"
    by (simp add: record_separator_def)
  have fin: "consume_loop [] ev = (ev, [])" for ev
    by (subst consume_loop.simps) (simp add: record_separator_def)
  have "consume_loop (?r @ record_separator) [] =
      (if data_lines ls = [] then [] else [join_lf (data_lines ls)], [])"
    by (subst consume_loop.simps) (simp add: idx lines tk dr fin Let_def del: append_assoc)
  then show ?thesis
    unfolding consumeSseEvents_def nocr by (simp add: dl Let_def)
qed

theorem data_line_payload_witness:
  "consumeSseEvents (join_lf [js ''event: x'', js ''data:   a'', js ''data:'' @ [0x09] @ js ''b''] @ record_separator) =
     ([js ''a'' @ [LF] @ js ''b''], [])"
  using data_line_payload [of "[js ''event: x'', js ''data:   a'', js ''data:'' @ [0x09] @ js ''b'']"]
  by (simp add: js_def LF_def CR_def is_white_space_def)

section \<open>Claims about the Delta Extractor, the store and the relay\<close>

subsection \<open>A turn of the scenario, evaluated\<close>

lemma example_turn:
  "handle_message example_env (new_connection empty_log)
      (Text (js ''{\"type\":\"user_message\",\"content\":\"Hi\"}'')) =
   \<lparr>store = \<lparr>stored = Some [chat_message ''user'' (Some (JStr (js ''Hi''))),
                               chat_message ''assistant'' (Some (JStr (js ''Hello'')))],
             storage_fails = False\<rparr>,
    audioBuffers = [],
    sent = [Delta (JStr (js ''Hel'')), Delta (JStr (js ''lo'')), Done],
    inference_calls = [[system_message, chat_message ''user'' (Some (JStr (js ''Hi'')))]]\<rparr>"
  by (simp add: relay_eval extract_eval byte_eval text_eval)

subsection \<open>Delta Extractor\<close>

text \<open>
  C5, as stated: the sentinel \<open>[DONE]\<close> signals the end of the stream, and a
  \<open>choices[0].delta.content\<close> that is present is the fragment. In the source the sentinel
  is skipped with \<open>continue\<close> and the events after it are handled like any other: the
  event \<open>{"response":"lo"}\<close> after \<open>[DONE]\<close> is sent as a delta. And
  \<open>choices[0].delta.content\<close> is tested for truthiness: the empty string is present
  but no delta is sent for it.
\<close>

theorem delta_extractor_counterexample:
  "snd (foldl (flush_event example_platform) ([], []) [js ''[DONE]'', js ''{\"response\":\"lo\"}''])
     = [Delta (JStr (js ''lo''))] \<and>
   claimed_fragments example_platform [js ''[DONE]'', js ''{\"response\":\"lo\"}''] = [] \<and>
   flush_event example_platform ([], []) (js ''{\"choices\":[{\"delta\":{\"content\":\"\"}}]}'') = ([], []) \<and>
   claimed_extract example_platform (js ''{\"choices\":[{\"delta\":{\"content\":\"\"}}]}'') = Fragment (JStr [])"
  by (simp add: extract_eval)

text \<open>
  C5, amended: for every decoded event payload the source applies these rules in order
  (\<open>extract_fragment\<close>): the sentinel \<open>[DONE]\<close> gives no fragment; a payload that does
  not parse (or parses to \<open>null\<close>) is dropped; a direct string \<open>response\<close> of nonzero
  length is the fragment; otherwise \<open>choices[0].delta.content\<close> is the fragment when it is
  truthy (and can be converted to a string); otherwise there is no fragment. Both loop
  bodies follow them, and no payload ends the stream: the read loops handle every event
  of the Frame Decoder, in order, until the byte stream closes.
\<close>

theorem delta_extractor_rules:
  "flush_event P (t, fs) p =
     (case extract_fragment P p of None \<Rightarrow> (t, fs) | Some (c, s) \<Rightarrow> (t @ s, fs @ [Delta c])) \<and>
   consume_event P t p =
     (case extract_fragment P p of None \<Rightarrow> t | Some (c, s) \<Rightarrow> t @ s) \<and>
   read_done (flush_event P) (read_chunks (flush_event P) (new_reader (t, fs)) chunks) =
     foldl (flush_event P) (t, fs) (frame_decode chunks) \<and>
   read_done (consume_event P) (read_chunks (consume_event P) (new_reader t) chunks) =
     foldl (consume_event P) t (frame_decode chunks)"
  by (simp add: flush_event_extract consume_event_extract read_stream_events)

subsection \<open>Session log store\<close>

text \<open>
  C9. A request to the append endpoint whose body is empty or does not parse is answered
  with status 400 and leaves the stored sequence unchanged; every body that parses is
  accepted, whatever the parsed value is; and after an append that succeeded (status
  204) on a log with contents \<open>L\<close>, get-all returns \<open>L\<close> with the parsed message at the
  end.
\<close>

theorem append_endpoint:
  assumes "http_method req = ''POST''" and "pathname req = ''/append''"
  shows "(body_text req = [] \<or> parse (body_text req) = None \<longrightarrow>
            status (snd (DO_fetch parse d req)) = 400 \<and> fst (DO_fetch parse d req) = d) \<and>
         (\<forall>m. body_text req \<noteq> [] \<and> parse (body_text req) = Some m \<and> \<not> storage_fails d \<longrightarrow>
            status (snd (DO_fetch parse d req)) = 204) \<and>
         (status (snd (DO_fetch parse d req)) = 204 \<longrightarrow>
            (\<exists>m. parse (body_text req) = Some m \<and>
               get_all parse d = \<lparr>status = 200, response_body = JsonBody (messages_or_empty d)\<rparr> \<and>
               get_all parse (fst (DO_fetch parse d req)) =
                 \<lparr>status = 200, response_body = JsonBody (messages_or_empty d @ [m])\<rparr>))"
  using assms
  by (auto simp: DO_fetch_def get_all_def messages_or_empty_def internal_error_def
      split: option.splits)

theorem append_endpoint_witness:
  "status (snd (DO_fetch example_parse \<lparr>stored = Some [JBool True], storage_fails = False\<rparr>
      \<lparr>http_method = ''POST'', pathname = ''/append'', body_text = js ''not json''\<rparr>)) = 400 \<and>
   fst (DO_fetch example_parse \<lparr>stored = Some [JBool True], storage_fails = False\<rparr>
      \<lparr>http_method = ''POST'', pathname = ''/append'', body_text = js ''not json''\<rparr>)
     = \<lparr>stored = Some [JBool True], storage_fails = False\<rparr> \<and>
   status (snd (DO_fetch example_parse \<lparr>stored = Some [JBool True], storage_fails = False\<rparr>
      \<lparr>http_method = ''POST'', pathname = ''/append'', body_text = js ''null''\<rparr>)) = 204 \<and>
   get_all example_parse
     (fst (DO_fetch example_parse \<lparr>stored = Some [JBool True], storage_fails = False\<rparr>
        \<lparr>http_method = ''POST'', pathname = ''/append'', body_text = js ''null''\<rparr>))
     = \<lparr>status = 200, response_body = JsonBody [JBool True, JNull]\<rparr>"
proof -
  let ?d = "\<lparr>stored = Some [JBool True :: nat json], storage_fails = False\<rparr>"
  let ?bad = "\<lparr>http_method = ''POST'', pathname = ''/append'', body_text = js ''not json''\<rparr>"
  let ?good = "\<lparr>http_method = ''POST'', pathname = ''/append'', body_text = js ''null''\<rparr>"
  have bad: "example_parse (body_text ?bad) = None"
    by (simp add: example_parse_def js_def)
  have good: "example_parse (body_text ?good) = Some JNull" "body_text ?good \<noteq> []"
    by (simp_all add: example_parse_def js_def)
  have "http_method ?bad = ''POST''" "pathname ?bad = ''/append''" by simp_all
  from append_endpoint [OF this, of example_parse ?d] bad
  have 1: "status (snd (DO_fetch example_parse ?d ?bad)) = 400 \<and> fst (DO_fetch example_parse ?d ?bad) = ?d"
    by blast
  have "http_method ?good = ''POST''" "pathname ?good = ''/append''" by simp_all
  from append_endpoint [OF this, of example_parse ?d] good
  have 2: "status (snd (DO_fetch example_parse ?d ?good)) = 204"
    and 3: "status (snd (DO_fetch example_parse ?d ?good)) = 204 \<longrightarrow>
      (\<exists>m. example_parse (body_text ?good) = Some m \<and>
         get_all example_parse (fst (DO_fetch example_parse ?d ?good)) =
           \<lparr>status = 200, response_body = JsonBody (messages_or_empty ?d @ [m])\<rparr>)"
    by auto
  from 2 3 good(1) have "get_all example_parse (fst (DO_fetch example_parse ?d ?good)) =
           \<lparr>status = 200, response_body = JsonBody [JBool True, JNull]\<rparr>"
    by (auto simp: messages_or_empty_def)
  with 1 2 show ?thesis by blast
qed

subsection \<open>Canonical history\<close>

text \<open>
  C4, as stated: for every stored history, also one that holds two or more messages with
  role system, the canonical history passed to the inference call has exactly one such
  message. The source only tests whether some message has the role system and prepends
  the default when none has; it removes nothing. A stored history with two system
  messages is passed on with both.
\<close>

theorem canonical_history_counterexample:
  "map (\<lambda>c. length (filter (has_role ''system'') c))
     (inference_calls (handle_message example_env
        (new_connection \<lparr>stored = Some [chat_message ''system'' (Some (JStr (js ''A''))),
                                        chat_message ''system'' (Some (JStr (js ''B'')))],
                         storage_fails = False\<rparr>)
        (Text (js ''{\"type\":\"user_message\",\"content\":\"Hi\"}'')))) = [2]"
  by (simp add: relay_eval extract_eval byte_eval text_eval)

text \<open>
  C4, amended: the canonical history passed to the inference call is the fetched
  history when that holds a message with role system, and the fetched history with the
  default system message prepended when it holds none; so it always holds at least one
  system message, and exactly one (the default) when the fetched history holds none.
  Duplicates in the fetched history are passed on. A turn does not store a system
  message, on either transport: the system messages of the log are the same after it.
  On the pull transport the history passed to the inference call, when there is a call,
  is the canonical history of the log as the request has left it.
\<close>

theorem canonical_history:
  assumes "canonical_messages (store w) = Inr c"
  shows "c = (if \<exists>m\<in>set (fetch_messages (store w)). has_role ''system'' m
              then fetch_messages (store w) else system_message # fetch_messages (store w)) \<and>
         (\<exists>m\<in>set c. has_role ''system'' m) \<and>
         ((\<forall>m\<in>set (fetch_messages (store w)). \<not> has_role ''system'' m) \<longrightarrow>
            filter (has_role ''system'') c = [system_message]) \<and>
         inference_calls (snd (run_turn E w)) = inference_calls w @ [c] \<and>
         filter (has_role ''system'') (messages_or_empty (store (snd (run_turn E w)))) =
           filter (has_role ''system'') (messages_or_empty (store w)) \<and>
         (chat_calls (handleChatRequest E (store w) requestBody) = [] \<or>
          (\<exists>c'. chat_calls (handleChatRequest E (store w) requestBody) = [c'] \<and>
             canonical_messages (chat_store (handleChatRequest E (store w) requestBody)) = Inr c')) \<and>
         filter (has_role ''system'')
             (messages_or_empty (chat_store (handleChatRequest E (store w) requestBody))) =
           filter (has_role ''system'') (messages_or_empty (store w))"
proof -
  note eq = canonical_messages_eq [OF assms]
  have "\<exists>m\<in>set c. has_role ''system'' m"
    using eq system_message_role by (auto split: if_splits)
  moreover have "(\<forall>m\<in>set (fetch_messages (store w)). \<not> has_role ''system'' m) \<longrightarrow>
            filter (has_role ''system'') c = [system_message]"
    using eq system_message_role by (auto simp: filter_empty_conv)
  ultimately show ?thesis
    using eq run_turn_calls [OF assms] run_turn_system_messages
      handleChatRequest_call [of E "store w" requestBody]
      handleChatRequest_system_messages [of E "store w" requestBody]
    by blast
qed

theorem canonical_history_witness:
  "canonical_messages (store (new_connection
       \<lparr>stored = Some [chat_message ''user'' (Some (JStr (js ''Hi'')))], storage_fails = False\<rparr>))
     = Inr [system_message, chat_message ''user'' (Some (JStr (js ''Hi''))) :: nat json] \<and>
   filter (has_role ''system'') [system_message, chat_message ''user'' (Some (JStr (js ''Hi''))) :: nat json]
     = [system_message] \<and>
   inference_calls (snd (run_turn example_env (new_connection
       \<lparr>stored = Some [chat_message ''user'' (Some (JStr (js ''Hi'')))], storage_fails = False\<rparr>)))
     = [[system_message, chat_message ''user'' (Some (JStr (js ''Hi'')))]] \<and>
   filter (has_role ''system'') (messages_or_empty (store (snd (run_turn example_env (new_connection
       \<lparr>stored = Some [chat_message ''user'' (Some (JStr (js ''Hi'')))], storage_fails = False\<rparr>)))))
     = []"
proof -
  let ?w = "new_connection
       \<lparr>stored = Some [chat_message ''user'' (Some (JStr (js ''Hi''))) :: nat json], storage_fails = False\<rparr>"
  have h: "canonical_messages (store ?w)
     = Inr [system_message, chat_message ''user'' (Some (JStr (js ''Hi'')))]"
    by (simp add: canonical_messages_def ensure_system_def fetch_messages_def messages_or_empty_def
        new_connection_def has_role_def chat_message_def get_member_def js_def)
  have f: "fetch_messages (store ?w) = [chat_message ''user'' (Some (JStr (js ''Hi'')))]"
    by (simp add: fetch_messages_def messages_or_empty_def new_connection_def)
  have m: "messages_or_empty (store ?w) = [chat_message ''user'' (Some (JStr (js ''Hi'')))]"
    by (simp add: messages_or_empty_def new_connection_def)
  have i: "inference_calls ?w = []"
    by (simp add: new_connection_def)
  note t = canonical_history [OF h, of example_env]
  from t have "(\<forall>m\<in>set (fetch_messages (store ?w)). \<not> has_role ''system'' m) \<longrightarrow>
      filter (has_role ''system'') [system_message, chat_message ''user'' (Some (JStr (js ''Hi''))) :: nat json]
        = [system_message]"
    by blast
  then have 1: "filter (has_role ''system'') [system_message, chat_message ''user'' (Some (JStr (js ''Hi''))) :: nat json]
        = [system_message]"
    by (simp only: f) (simp add: user_not_system)
  from t have 2: "inference_calls (snd (run_turn example_env ?w))
      = inference_calls ?w @ [[system_message, chat_message ''user'' (Some (JStr (js ''Hi'')))]]"
    by blast
  from t have 3: "filter (has_role ''system'') (messages_or_empty (store (snd (run_turn example_env ?w))))
      = filter (has_role ''system'') (messages_or_empty (store ?w))"
    by blast
  have 4: "filter (has_role ''system'') (messages_or_empty (store ?w)) = []"
    by (simp only: m) (simp add: user_not_system)
  from h 1 2 3 4 i show ?thesis
    by simp
qed

subsection \<open>Text frames that do not parse\<close>

text \<open>
  C6, as stated: an inbound text frame whose body is not valid JSON is ignored silently,
  no outbound frame of any type is sent. In the source \<open>JSON.parse(ev.data)\<close> throws inside
  the outer \<open>try\<close> of the listener, whose \<open>catch\<close> sends an error frame.
\<close>

theorem malformed_text_frame_counterexample:
  "sent (handle_message example_env (new_connection empty_log) (Text (js ''not json'')))
     = [ErrorFrame SyntaxError] \<and>
   sent (new_connection empty_log :: nat world) = []"
  by (simp add: handle_message_def report_def new_connection_def example_env_def
      example_platform_def example_parse_def js_def)

text \<open>
  C6, amended: for an inbound text frame whose body is not valid JSON the handler sends
  exactly one \<open>{type: error, message}\<close> frame and changes nothing else (log, audio buffer,
  inference calls); the connection is not closed and the frames that follow are
  handled as usual. A text frame that parses to a falsy value (\<open>null\<close>, \<open>false\<close>, \<open>0\<close>,
  \<open>""\<close>) is ignored silently.
\<close>

theorem malformed_text_frame:
  "(JSON_parse (platform E) s = None \<longrightarrow>
      handle_message E w (Text s) = w\<lparr>sent := sent w @ [ErrorFrame SyntaxError]\<rparr> \<and>
      handle_messages E w (Text s # frames) =
        handle_messages E (w\<lparr>sent := sent w @ [ErrorFrame SyntaxError]\<rparr>) frames) \<and>
   (\<forall>v. JSON_parse (platform E) s = Some v \<and> \<not> truthy (platform E) v \<longrightarrow>
      handle_message E w (Text s) = w \<and>
      handle_messages E w (Text s # frames) = handle_messages E w frames)"
  by (simp add: handle_message_def handle_messages_def report_def)

theorem malformed_text_frame_witness:
  "handle_message example_env (new_connection empty_log) (Text (js ''not json'')) =
     (new_connection empty_log)\<lparr>sent := [ErrorFrame SyntaxError]\<rparr> \<and>
   handle_message example_env (new_connection empty_log) (Text (js ''null'')) =
     new_connection empty_log"
proof -
  have a: "JSON_parse (platform example_env) (js ''not json'') = None"
    by (simp add: example_env_def example_platform_def example_parse_def js_def)
  have b: "JSON_parse (platform example_env) (js ''null'') = Some JNull"
    by (simp add: example_env_def example_platform_def example_parse_def js_def)
  have c: "\<not> truthy (platform example_env) JNull"
    by (simp add: truthy_def)
  show ?thesis
    using malformed_text_frame [of example_env "js ''not json''" "new_connection empty_log" "[]"]
      malformed_text_frame [of example_env "js ''null''" "new_connection empty_log" "[]"] a b c
    by (simp add: new_connection_def)
qed

subsection \<open>Audio\<close>

text \<open>
  C8. On a connection whose audio buffer is empty, binary chunks of sizes 4, 4 and 2
  followed by a \<open>{type: audio_end}\<close> text frame: the chunks are buffered in arrival order
  and send nothing; their combination is the 10 bytes in arrival order; the handler
  sends the placeholder that mentions 10 bytes as the \<open>transcript\<close> frame before any other
  frame, and leaves the audio buffer empty. When the storage of the session works, the
  stored log afterwards is the log before, then the user message with that placeholder,
  then at most the assistant message of the reply.
\<close>

theorem audio_end_transcript:
  assumes "length c1 = 4" and "length c2 = 4" and "length c3 = 2"
    and "audioBuffers w = []"
    and "JSON_parse (platform E) s = Some data"
    and "get_member data (js ''type'') = Some (JStr (js ''audio_end''))"
  shows "(let w3 = handle_messages E w [Binary c1, Binary c2, Binary c3];
              w' = handle_message E w3 (Text s);
              p = js ''[Audio received 10 bytes] (transcription not configured)''
          in audioBuffers w3 = [c1, c2, c3] \<and> sent w3 = sent w \<and> store w3 = store w \<and>
             combine (audioBuffers w3) = c1 @ c2 @ c3 \<and> length (combine (audioBuffers w3)) = 10 \<and>
             audioBuffers w' = [] \<and>
             (\<exists>frames. sent w' = sent w @ Transcript p # frames) \<and>
             (\<exists>t. store w' =
                persist_reply (append_message (store w) (chat_message ''user'' (Some (JStr p)))) t) \<and>
             (\<not> storage_fails (store w) \<longrightarrow>
                (\<exists>t. stored (store w') =
                   Some (messages_or_empty (store w) @
                         JObj [(js ''role'', JStr (js ''user'')), (js ''content'', JStr p)] #
                         (if t = [] then []
                          else [JObj [(js ''role'', JStr (js ''assistant'')),
                                      (js ''content'', JStr t)]])))))"
proof -
  let ?w3 = "handle_messages E w [Binary c1, Binary c2, Binary c3]"
  let ?p = "js ''[Audio received 10 bytes] (transcription not configured)''"
  have w3: "?w3 = w\<lparr>audioBuffers := [c1, c2, c3]\<rparr>"
    using assms(4) by (simp add: handle_messages_def handle_message_def)
  have total: "total_length (audioBuffers ?w3) = 10"
    using assms(1-3) by (simp add: w3 total_length_concat)
  from assms(6) obtain kvs where data: "data = JObj kvs"
    by (cases data) (simp_all add: get_member_def)
  then have truthy: "truthy (platform E) data" by (simp add: truthy_def)
  have neq: "js ''audio_end'' \<noteq> js ''user_message''" by (simp add: js_def)
  let ?w4 = "?w3\<lparr>store := append_message (store w) (chat_message ''user'' (Some (JStr ?p))),
                  sent := sent w @ [Transcript ?p], audioBuffers := []\<rparr>"
  have step: "handle_message E ?w3 (Text s) = report (run_turn E ?w4)"
    using assms(5,6) truthy neq total
    by (simp add: handle_message_def Let_def placeholder_10) (simp add: w3)
  obtain calls frames t where "report (run_turn E ?w4) =
      ?w4\<lparr>inference_calls := inference_calls ?w4 @ calls, sent := sent ?w4 @ frames,
        store := persist_reply (store ?w4) t\<rparr>"
    using report_run_turn_shape by blast
  with step have ab: "audioBuffers (handle_message E ?w3 (Text s)) = []"
    and se: "sent (handle_message E ?w3 (Text s)) = sent w @ Transcript ?p # frames"
    and st: "store (handle_message E ?w3 (Text s)) =
           persist_reply (append_message (store w) (chat_message ''user'' (Some (JStr ?p)))) t"
    by simp_all
  have lg: "stored (store (handle_message E ?w3 (Text s))) =
      Some (messages_or_empty (store w) @
            JObj [(js ''role'', JStr (js ''user'')), (js ''content'', JStr ?p)] #
            (if t = [] then []
             else [JObj [(js ''role'', JStr (js ''assistant'')), (js ''content'', JStr t)]]))"
    if "\<not> storage_fails (store w)"
    using that
    by (simp add: st persist_reply_def append_message_def messages_or_empty_def chat_message_def)
  have "audioBuffers ?w3 = [c1, c2, c3]" "sent ?w3 = sent w" "store ?w3 = store w"
    by (simp_all add: w3)
  moreover have "combine (audioBuffers ?w3) = c1 @ c2 @ c3"
    by (simp add: w3 combine_concat)
  moreover have "length (combine (audioBuffers ?w3)) = 10"
    using assms(1-3) by (simp add: w3 combine_concat)
  ultimately show ?thesis
    unfolding Let_def using ab se st lg by blast
qed

theorem audio_end_transcript_witness:
  "(let w3 = handle_messages example_env (new_connection empty_log)
               [Binary [1, 2, 3, 4], Binary [5, 6, 7, 8], Binary [9, 10]];
        w' = handle_message example_env w3 (Text (js ''{\"type\":\"audio_end\"}''));
        p = js ''[Audio received 10 bytes] (transcription not configured)''
    in audioBuffers w3 = [[1, 2, 3, 4], [5, 6, 7, 8], [9, 10]] \<and>
       sent w3 = sent (new_connection empty_log) \<and> store w3 = store (new_connection empty_log) \<and>
       combine (audioBuffers w3) = [1, 2, 3, 4] @ [5, 6, 7, 8] @ [9, 10] \<and>
       length (combine (audioBuffers w3)) = 10 \<and>
       audioBuffers w' = [] \<and>
       (\<exists>frames. sent w' = sent (new_connection empty_log) @ Transcript p # frames) \<and>
       (\<exists>t. store w' = persist_reply (append_message (store (new_connection empty_log))
                (chat_message ''user'' (Some (JStr p)))) t) \<and>
       \<not> storage_fails (store (new_connection empty_log)) \<and>
       (\<exists>t. stored (store w') =
          Some (messages_or_empty (store (new_connection empty_log)) @
                JObj [(js ''role'', JStr (js ''user'')), (js ''content'', JStr p)] #
                (if t = [] then []
                 else [JObj [(js ''role'', JStr (js ''assistant'')), (js ''content'', JStr t)]]))) \<and>
       sent w' = [Transcript p, Delta (JStr (js ''Hel'')), Delta (JStr (js ''lo'')), Done] \<and>
       stored (store w') =
         Some [JObj [(js ''role'', JStr (js ''user'')), (js ''content'', JStr p)],
               JObj [(js ''role'', JStr (js ''assistant'')), (js ''content'', JStr (js ''Hello''))]])"
proof -
  let ?w3 = "handle_messages example_env (new_connection empty_log)
               [Binary [1, 2, 3, 4], Binary [5, 6, 7, 8], Binary [9, 10]]"
  let ?w' = "handle_message example_env ?w3 (Text (js ''{\"type\":\"audio_end\"}''))"
  have p: "JSON_parse (platform example_env) (js ''{\"type\":\"audio_end\"}'')
      = Some (JObj [(js ''type'', JStr (js ''audio_end''))])"
    by (simp add: example_env_def example_platform_def example_parse_def js_def)
  have t: "get_member (JObj [(js ''type'', JStr (js ''audio_end''))] :: nat json) (js ''type'')
      = Some (JStr (js ''audio_end''))"
    by (simp add: get_member_def)
  have nf: "\<not> storage_fails (store (new_connection empty_log))"
    by (simp add: new_connection_def empty_log_def)
  have w3: "?w3 = (new_connection empty_log)\<lparr>audioBuffers := [[1, 2, 3, 4], [5, 6, 7, 8], [9, 10]]\<rparr>"
    by (simp add: handle_messages_def handle_message_def new_connection_def)
  have run: "?w' =
      \<lparr>store = \<lparr>stored = Some
           [JObj [(js ''role'', JStr (js ''user'')),
                  (js ''content'', JStr (js ''[Audio received 10 bytes] (transcription not configured)''))],
            JObj [(js ''role'', JStr (js ''assistant'')), (js ''content'', JStr (js ''Hello''))]],
          storage_fails = False\<rparr>,
       audioBuffers = [],
       sent = [Transcript (js ''[Audio received 10 bytes] (transcription not configured)''),
               Delta (JStr (js ''Hel'')), Delta (JStr (js ''lo'')), Done],
       inference_calls =
         [[system_message,
           JObj [(js ''role'', JStr (js ''user'')),
                 (js ''content'', JStr (js ''[Audio received 10 bytes] (transcription not configured)''))]]]\<rparr>"
    unfolding w3
    by (simp add: relay_eval extract_eval byte_eval text_eval total_length_def placeholder_def
        decimal.simps Let_def)
  have "length [1, 2, 3, 4 :: byte] = 4" "length [5, 6, 7, 8 :: byte] = 4" "length [9, 10 :: byte] = 2"
    "audioBuffers (new_connection empty_log) = []"
    by (simp_all add: new_connection_def)
  note inst = audio_end_transcript [OF this p t, unfolded Let_def]
  have "sent ?w' = [Transcript (js ''[Audio received 10 bytes] (transcription not configured)''),
               Delta (JStr (js ''Hel'')), Delta (JStr (js ''lo'')), Done]"
    and "stored (store ?w') = Some
           [JObj [(js ''role'', JStr (js ''user'')),
                  (js ''content'', JStr (js ''[Audio received 10 bytes] (transcription not configured)''))],
            JObj [(js ''role'', JStr (js ''assistant'')), (js ''content'', JStr (js ''Hello''))]]"
    by (simp_all add: run)
  with inst nf show ?thesis
    unfolding Let_def by blast
qed

subsection \<open>Tee fidelity\<close>

text \<open>
  C1 holds on the duplex transport (\<open>duplex_turn_tee\<close>: the frames sent are the deltas in
  order and then \<open>done\<close>, the reply stored is the concatenation of their texts, and it is
  stored if and only if it is not empty) and for \<open>accumulateAndPersist\<close> as a function
  (\<open>accumulateAndPersist_closed\<close>). On the pull transport the source never calls
  \<open>accumulateAndPersist\<close>: \<open>handleChatRequest\<close> has no \<open>ctx\<close> in scope, so
  \<open>ctx.waitUntil(accumulateAndPersist())\<close> throws and the request is answered with status
  500. For the scenario of the specification: the answer is the failure, the log holds
  the user message only, and the history was passed to the inference service; run on the
  same stream, \<open>accumulateAndPersist\<close> would have appended the reply \<open>Hello\<close>.
\<close>

theorem pull_turn_not_persisted:
  "chat_reply (handleChatRequest example_env empty_log
      (js ''{\"messages\":[{\"role\":\"user\",\"content\":\"Hi\"}]}'')) = Failed \<and>
   messages_or_empty (chat_store (handleChatRequest example_env empty_log
      (js ''{\"messages\":[{\"role\":\"user\",\"content\":\"Hi\"}]}'')))
     = [JObj [(js ''role'', JStr (js ''user'')), (js ''content'', JStr (js ''Hi''))]] \<and>
   chat_calls (handleChatRequest example_env empty_log
      (js ''{\"messages\":[{\"role\":\"user\",\"content\":\"Hi\"}]}''))
     = [[system_message, JObj [(js ''role'', JStr (js ''user'')), (js ''content'', JStr (js ''Hi''))]]] \<and>
   messages_or_empty (accumulateAndPersist example_platform
      (chat_store (handleChatRequest example_env empty_log
         (js ''{\"messages\":[{\"role\":\"user\",\"content\":\"Hi\"}]}''))) example_stream)
     = [JObj [(js ''role'', JStr (js ''user'')), (js ''content'', JStr (js ''Hi''))],
        chat_message ''assistant'' (Some (JStr (js ''Hello'')))]"
  by (simp add: chat_eval relay_eval extract_eval consume_event_def byte_eval text_eval)

subsection \<open>Turns in flight\<close>

text \<open>
  C3, as stated: while a turn is in flight, a second \<open>{type: user_message}\<close> text frame
  does not trigger a second Turn Pipeline invocation, and no second inference call starts
  before the first turn completes. The listener has no state for this: the second frame
  starts a second invocation. Here the first invocation waits for the inference
  service when the second frame arrives; two steps later both wait for the inference
  service, each with its own call, and no \<open>done\<close> has been sent.
\<close>

theorem second_turn_counterexample:
  "run example_env \<lparr>world = new_connection empty_log, tasks = []\<rparr>
     [Arrive (Text (js ''{\"type\":\"user_message\",\"content\":\"Hi\"}'')), Resume 0, Resume 0,
      Arrive (Text (js ''{\"type\":\"user_message\",\"content\":\"Hi\"}'')), Resume 1, Resume 1] =
   \<lparr>world =
      \<lparr>store = \<lparr>stored = Some [chat_message ''user'' (Some (JStr (js ''Hi''))),
                                 chat_message ''user'' (Some (JStr (js ''Hi'')))],
                storage_fails = False\<rparr>,
       audioBuffers = [], sent = [],
       inference_calls =
         [[system_message, chat_message ''user'' (Some (JStr (js ''Hi'')))],
          [system_message, chat_message ''user'' (Some (JStr (js ''Hi''))),
           chat_message ''user'' (Some (JStr (js ''Hi'')))]]\<rparr>,
    tasks =
      [Some (AwaitInference [system_message, chat_message ''user'' (Some (JStr (js ''Hi'')))]),
       Some (AwaitInference [system_message, chat_message ''user'' (Some (JStr (js ''Hi''))),
           chat_message ''user'' (Some (JStr (js ''Hi'')))])]\<rparr> \<and>
   in_flight (run example_env \<lparr>world = new_connection empty_log, tasks = []\<rparr>
     [Arrive (Text (js ''{\"type\":\"user_message\",\"content\":\"Hi\"}'')), Resume 0, Resume 0,
      Arrive (Text (js ''{\"type\":\"user_message\",\"content\":\"Hi\"}'')), Resume 1, Resume 1]) = 2"
  by (simp add: step_eval relay_eval extract_eval)

text \<open>
  C3, amended: the server keeps no state of the turns of a connection. Every
  \<open>{type: user_message}\<close> text frame starts a new invocation of the Turn Pipeline,
  whatever invocations are in flight, and that invocation appends its message and calls
  the inference service with the canonical history; binary audio frames are buffered
  at any time and leave the invocations in flight as they are. An invocation that runs
  with nothing in between is the handler \<open>handle_message\<close>.
\<close>

theorem arriving_frames:
  "(\<forall>data h. JSON_parse (platform E) s = Some data \<and>
        get_member data (js ''type'') = Some (JStr (js ''user_message'')) \<and>
        canonical_messages (append_message (store (world c))
          (chat_message ''user'' (get_member data (js ''content'')))) = Inr h \<longrightarrow>
      step E c (Arrive (Text s)) =
        \<lparr>world = world c,
         tasks = tasks c @ [Some (AwaitAppend (chat_message ''user'' (get_member data (js ''content''))))]\<rparr> \<and>
      in_flight (step E c (Arrive (Text s))) = in_flight c + 1 \<and>
      run E c [Arrive (Text s), Resume (length (tasks c)), Resume (length (tasks c))] =
        \<lparr>world = (world c)
           \<lparr>store := append_message (store (world c))
                       (chat_message ''user'' (get_member data (js ''content''))),
            inference_calls := inference_calls (world c) @ [h]\<rparr>,
         tasks = tasks c @ [Some (AwaitInference h)]\<rparr>) \<and>
   step E c (Arrive (Binary buf)) =
     c\<lparr>world := (world c)\<lparr>audioBuffers := audioBuffers (world c) @ [buf]\<rparr>\<rparr> \<and>
   in_flight (step E c (Arrive (Binary buf))) = in_flight c \<and>
   handle_message E w data0 =
     (case arrive E w data0 of (w', None) \<Rightarrow> w' | (w', Some t) \<Rightarrow> drain E w' t)"
proof -
  have "step E c (Arrive (Text s)) =
        \<lparr>world = world c,
         tasks = tasks c @ [Some (AwaitAppend (chat_message ''user'' (get_member data (js ''content''))))]\<rparr> \<and>
      in_flight (step E c (Arrive (Text s))) = in_flight c + 1 \<and>
      run E c [Arrive (Text s), Resume (length (tasks c)), Resume (length (tasks c))] =
        \<lparr>world = (world c)
           \<lparr>store := append_message (store (world c))
                       (chat_message ''user'' (get_member data (js ''content''))),
            inference_calls := inference_calls (world c) @ [h]\<rparr>,
         tasks = tasks c @ [Some (AwaitInference h)]\<rparr>"
    if p: "JSON_parse (platform E) s = Some data"
      and u: "get_member data (js ''type'') = Some (JStr (js ''user_message''))"
      and h: "canonical_messages (append_message (store (world c))
          (chat_message ''user'' (get_member data (js ''content'')))) = Inr h"
    for data h
  proof -
    let ?m = "chat_message ''user'' (get_member data (js ''content''))"
    have 1: "step E c (Arrive (Text s)) = \<lparr>world = world c, tasks = tasks c @ [Some (AwaitAppend ?m)]\<rparr>"
      by (simp add: step_def user_message_arrives [OF p u])
    have 2: "step E \<lparr>world = world c, tasks = tasks c @ [Some (AwaitAppend ?m)]\<rparr> (Resume (length (tasks c)))
        = \<lparr>world = (world c)\<lparr>store := append_message (store (world c)) ?m\<rparr>,
           tasks = tasks c @ [Some AwaitMessages]\<rparr>"
      by (simp add: step_def resume_def)
    have 3: "step E \<lparr>world = (world c)\<lparr>store := append_message (store (world c)) ?m\<rparr>,
           tasks = tasks c @ [Some AwaitMessages]\<rparr> (Resume (length (tasks c)))
        = \<lparr>world = (world c)\<lparr>store := append_message (store (world c)) ?m,
                              inference_calls := inference_calls (world c) @ [h]\<rparr>,
           tasks = tasks c @ [Some (AwaitInference h)]\<rparr>"
      using h by (simp add: step_def resume_def)
    have "in_flight (step E c (Arrive (Text s))) = in_flight c + 1"
      by (simp add: 1 in_flight_def)
    with 1 2 3 show ?thesis
      by (simp add: run_def)
  qed
  moreover have "step E c (Arrive (Binary buf)) =
     c\<lparr>world := (world c)\<lparr>audioBuffers := audioBuffers (world c) @ [buf]\<rparr>\<rparr>"
    by (simp add: step_def arrive_def)
  moreover have "in_flight (step E c (Arrive (Binary buf))) = in_flight c"
    by (simp add: step_def arrive_def in_flight_def)
  ultimately show ?thesis
    using handle_message_drain [of E w data0] by blast
qed

theorem arriving_frames_witness:
  "in_flight (step example_env \<lparr>world = new_connection empty_log, tasks = [Some AwaitMessages]\<rparr>
      (Arrive (Text (js ''{\"type\":\"user_message\",\"content\":\"Hi\"}'')))) = 2 \<and>
   tasks (run example_env \<lparr>world = new_connection empty_log, tasks = [Some AwaitMessages]\<rparr>
      [Arrive (Text (js ''{\"type\":\"user_message\",\"content\":\"Hi\"}'')), Resume 1, Resume 1]) =
     [Some AwaitMessages,
      Some (AwaitInference [system_message, chat_message ''user'' (Some (JStr (js ''Hi'')))])]"
proof -
  let ?c = "\<lparr>world = new_connection empty_log, tasks = [Some AwaitMessages]\<rparr>"
  let ?s = "js ''{\"type\":\"user_message\",\"content\":\"Hi\"}''"
  let ?data = "JObj [(js ''type'', JStr (js ''user_message'')), (js ''content'', JStr (js ''Hi''))] :: nat json"
  let ?h = "[system_message, chat_message ''user'' (Some (JStr (js ''Hi''))) :: nat json]"
  have p: "JSON_parse (platform example_env) ?s = Some ?data"
    by (simp add: example_env_def example_platform_def example_parse_def js_def)
  have u: "get_member ?data (js ''type'') = Some (JStr (js ''user_message''))"
    by (simp add: get_member_def)
  have m: "get_member ?data (js ''content'') = Some (JStr (js ''Hi''))"
    by (simp add: get_member_def js_def)
  have h: "canonical_messages (append_message (store (world ?c))
      (chat_message ''user'' (get_member ?data (js ''content'')))) = Inr ?h"
    unfolding m
    by (simp add: canonical_messages_def ensure_system_def fetch_messages_def append_message_def
        messages_or_empty_def new_connection_def empty_log_def user_not_system)
       (simp add: chat_message_def)
  have f: "in_flight ?c = 1"
    by (simp add: in_flight_def)
  from arriving_frames [of example_env ?s ?c] p u h
  have "in_flight (step example_env ?c (Arrive (Text ?s))) = in_flight ?c + 1"
    and "run example_env ?c [Arrive (Text ?s), Resume (length (tasks ?c)), Resume (length (tasks ?c))] =
        \<lparr>world = (world ?c)
           \<lparr>store := append_message (store (world ?c))
                       (chat_message ''user'' (get_member ?data (js ''content''))),
            inference_calls := inference_calls (world ?c) @ [?h]\<rparr>,
         tasks = tasks ?c @ [Some (AwaitInference ?h)]\<rparr>"
    by blast+
  with f show ?thesis by simp
qed

end
